(* ===== verification/VMM_Prelude.thy ===== *)
theory VMM_Prelude
  imports Main "HOL-Library.Word" "HOL-Library.Signed_Division"
begin

text \<open>
  What the components share: how a C++ operation can fail to return (\<open>abort\<close>), the result
  type \<open>'a cpp\<close> with its sequencing operator \<open>bind_cpp\<close>, the development's collections of
  facts, and generic lemmas on lists and machine words.
\<close>

unbundle bit_operations_syntax

section \<open>Collections of facts\<close>

text \<open>
  \<open>inv_intros\<close> collects the facts that an operation keeps a component's invariant,
  \<open>frame_simps\<close> the equations that say which fields an operation leaves alone, and
  \<open>outcome_simps\<close> the inversion rules for results of fallible operations.
\<close>

named_theorems inv_intros
named_theorems frame_simps
named_theorems outcome_simps

section \<open>Operations that may not return\<close>

text \<open>
  The ways in which a call of the modelled code ends other than by returning a value:
  an index or a \<open>memcpy\<close> outside its object, a signed overflow (the quotient
  \<open>INT_MIN / -1\<close> included), a shift by at least the width, a read of a variable that was never
  written (all four are undefined behaviour), an exception nothing catches (\<open>std::stoi\<close> on text that is no number or does
  not fit), and a call of \<open>exit\<close>.
\<close>

datatype abort =
    UB_Bounds
  | UB_Overflow
  | UB_Shift
  | UB_Uninitialized
  | Uncaught_Exception
  | Exit int

type_synonym 'a cpp = "abort + 'a"

definition bind_cpp :: "'e + 'a \<Rightarrow> ('a \<Rightarrow> 'e + 'b) \<Rightarrow> 'e + 'b" where
  "bind_cpp m f = (case m of Inl e \<Rightarrow> Inl e | Inr x \<Rightarrow> f x)"

lemma bind_cpp_simps [simp]:
  "bind_cpp (Inl e) f = Inl e"
  "bind_cpp (Inr x) f = f x"
  by (simp_all add: bind_cpp_def)

lemma bind_cpp_eq_Inr [outcome_simps]:
  "bind_cpp m f = Inr y \<longleftrightarrow> (\<exists>x. m = Inr x \<and> f x = Inr y)"
  by (cases m) auto

lemma bind_cpp_eq_Inl [outcome_simps]:
  "bind_cpp m f = Inl e \<longleftrightarrow> m = Inl e \<or> (\<exists>x. m = Inr x \<and> f x = Inl e)"
  by (cases m) auto

lemma case_sum_eq_Inr [outcome_simps]:
  "(case r of Inl f \<Rightarrow> g f | Inr v \<Rightarrow> h v) = Inr y \<longleftrightarrow>
     (\<exists>f. r = Inl f \<and> g f = Inr y) \<or> (\<exists>v. r = Inr v \<and> h v = Inr y)"
  by (cases r) auto

lemma case_sum_eq_Inl:
  "(case r of Inl f \<Rightarrow> g f | Inr v \<Rightarrow> h v) = Inl e \<longleftrightarrow>
     (\<exists>f. r = Inl f \<and> g f = Inl e) \<or> (\<exists>v. r = Inr v \<and> h v = Inl e)"
  by (cases r) auto

lemma if_eq_Inr [outcome_simps]:
  "(if c then a else b) = Inr y \<longleftrightarrow> (c \<and> a = Inr y) \<or> (\<not> c \<and> b = Inr y)"
  by simp

lemma bind_cpp_assoc:
  "bind_cpp (bind_cpp m f) g = bind_cpp m (\<lambda>x. bind_cpp (f x) g)"
  by (cases m) auto

lemma bind_cpp_cong [fundef_cong]:
  "m = m' \<Longrightarrow> (\<And>x. m' = Inr x \<Longrightarrow> f x = f' x) \<Longrightarrow> bind_cpp m f = bind_cpp m' f'"
  by (cases m') simp_all

lemma rel_sum_bind_cpp:
  assumes "rel_sum E R m m'" and "\<And>x y. R x y \<Longrightarrow> rel_sum E S (f x) (g y)"
  shows "rel_sum E S (bind_cpp m f) (bind_cpp m' g)"
  using assms by (cases m; cases m') auto

lemma rel_sum_bind_same:
  "(\<And>x. m = Inr x \<Longrightarrow> rel_sum (=) S (f x) (g x)) \<Longrightarrow> rel_sum (=) S (bind_cpp m f) (bind_cpp m g)"
  by (cases m) auto

text \<open>A computation returns when its result is not an abort.\<close>

definition returns :: "'e + 'a \<Rightarrow> bool" where
  "returns m = (case m of Inl _ \<Rightarrow> False | Inr _ \<Rightarrow> True)"

lemma returns_simps [simp]: "returns (Inr x)" "\<not> returns (Inl e)"
  by (simp_all add: returns_def)

lemma returns_iff: "returns m \<longleftrightarrow> (\<exists>x. m = Inr x)"
  by (cases m) auto

lemma rel_sum_returns: "rel_sum E R m m' \<Longrightarrow> returns m' \<longleftrightarrow> returns m"
  by (auto simp: rel_sum.simps)

section \<open>Lists\<close>

text \<open>
  \<open>splice k ys xs\<close> overwrites the elements of \<open>xs\<close> from position \<open>k\<close> on with \<open>ys\<close>:
  what a \<open>memcpy\<close> of \<open>ys\<close> to \<open>xs.data() + k\<close> does when it stays inside.
\<close>

definition splice_at :: "nat \<Rightarrow> 'a list \<Rightarrow> 'a list \<Rightarrow> 'a list" where
  "splice_at k ys xs = take k xs @ ys @ drop (k + length ys) xs"

lemma length_splice_at [simp]:
  "k + length ys \<le> length xs \<Longrightarrow> length (splice_at k ys xs) = length xs"
  by (simp add: splice_at_def)

lemma splice_at_read_same:
  "k + length ys \<le> length xs \<Longrightarrow> take (length ys) (drop k (splice_at k ys xs)) = ys"
  by (simp add: splice_at_def)

lemma splice_at_nth:
  assumes "k + length ys \<le> length xs" and "i < length xs"
  shows "splice_at k ys xs ! i = (if k \<le> i \<and> i < k + length ys then ys ! (i - k) else xs ! i)"
  using assms by (auto simp: splice_at_def nth_append min_def)

lemma take_drop_nth_eq:
  assumes "j + n \<le> length xs" and "j + n \<le> length ys"
    and "\<And>i. j \<le> i \<Longrightarrow> i < j + n \<Longrightarrow> xs ! i = ys ! i"
  shows "take n (drop j xs) = take n (drop j ys)"
  using assms by (intro nth_equalityI) auto

lemma splice_at_read_other:
  assumes "k + length ys \<le> length xs" and "j + n \<le> length xs"
    and "j + n \<le> k \<or> k + length ys \<le> j"
  shows "take n (drop j (splice_at k ys xs)) = take n (drop j xs)"
  using assms by (intro take_drop_nth_eq) (auto simp: splice_at_nth)

lemma takeWhile_append_stop:
  "\<forall>x \<in> set xs. P x \<Longrightarrow> \<not> P y \<Longrightarrow> takeWhile P (xs @ y # ys) = xs"
  by (simp add: takeWhile_append)

lemma dropWhile_append_stop:
  "\<forall>x \<in> set xs. P x \<Longrightarrow> \<not> P y \<Longrightarrow> dropWhile P (xs @ y # ys) = y # ys"
  by (simp add: dropWhile_append)

lemma sum_list_update_less:
  fixes f :: "'a \<Rightarrow> nat"
  assumes "i < length xs" and "f y < f (xs ! i)"
  shows "sum_list (map f (xs[i := y])) < sum_list (map f xs)"
proof -
  have split: "xs = take i xs @ xs ! i # drop (Suc i) xs"
    using assms(1) by (rule id_take_nth_drop)
  have "sum_list (map f (xs[i := y]))
      = sum_list (map f (take i xs)) + f y + sum_list (map f (drop (Suc i) xs))"
    using assms(1) by (simp add: upd_conv_take_nth_drop)
  also have "\<dots> < sum_list (map f (take i xs)) + f (xs ! i) + sum_list (map f (drop (Suc i) xs))"
    using assms(2) by simp
  also have "\<dots> = sum_list (map f xs)"
    by (subst (4) split) simp
  finally show ?thesis .
qed

end
