(* ===== verification/Cpp_Int.thy ===== *)
theory Cpp_Int
  imports VMM_Prelude
begin

text \<open>
  The machine integers of the code: \<open>int32_t\<close> and \<open>int\<close> as \<open>32 word\<close> read with \<open>sint\<close>,
  \<open>uint32_t\<close> as \<open>32 word\<close> read with \<open>unat\<close>, \<open>std::size_t\<close> as \<open>64 word\<close>, bytes as
  \<open>8 word\<close>. Signed arithmetic that leaves the range is undefined behaviour and is an abort
  of the model; unsigned arithmetic wraps. Object representations are little-endian, as on
  every platform the code is built for.
\<close>

unbundle bit_operations_syntax

type_synonym byte = "8 word"
type_synonym u32 = "32 word"
type_synonym i32 = "32 word"
type_synonym size_t = "64 word"

section \<open>Signed 32-bit arithmetic\<close>

definition in_i32 :: "int \<Rightarrow> bool" where
  "in_i32 x \<longleftrightarrow> - (2 ^ 31) \<le> x \<and> x < 2 ^ 31"

definition i32_of :: "int \<Rightarrow> i32 cpp" where
  "i32_of x = (if in_i32 x then Inr (word_of_int x) else Inl UB_Overflow)"

definition add32 :: "i32 \<Rightarrow> i32 \<Rightarrow> i32 cpp" where
  "add32 a b = i32_of (sint a + sint b)"

definition sub32 :: "i32 \<Rightarrow> i32 \<Rightarrow> i32 cpp" where
  "sub32 a b = i32_of (sint a - sint b)"

definition mul32 :: "i32 \<Rightarrow> i32 \<Rightarrow> i32 cpp" where
  "mul32 a b = i32_of (sint a * sint b)"

text \<open>
  C++ division truncates towards zero (\<open>sdiv\<close>, \<open>smod\<close>); both operators are undefined when
  the quotient does not fit. The callers have excluded a zero divisor.
\<close>

definition div32 :: "i32 \<Rightarrow> i32 \<Rightarrow> i32 cpp" where
  "div32 a b = i32_of (sint a sdiv sint b)"

definition rem32 :: "i32 \<Rightarrow> i32 \<Rightarrow> i32 cpp" where
  "rem32 a b = bind_cpp (div32 a b) (\<lambda>_. Inr (word_of_int (sint a smod sint b)))"

lemma in_i32_sint [simp, intro]: "in_i32 (sint (w :: i32))"
  using sint_range_size [of w] by (simp add: in_i32_def word_size)

lemma sint_of_in_i32 [simp]: "in_i32 x \<Longrightarrow> sint (word_of_int x :: i32) = x"
  by (simp add: in_i32_def sint_sbintrunc' signed_take_bit_int_eq_self)

lemma i32_of_sint [simp]: "i32_of (sint w) = Inr w"
  by (simp add: i32_of_def)

lemma i32_of_Inr [outcome_simps]: "i32_of x = Inr w \<longleftrightarrow> in_i32 x \<and> sint w = x"
  by (auto simp: i32_of_def)

text \<open>An operation that returns, returns the mathematical result.\<close>

lemma sint_add32: "add32 a b = Inr c \<Longrightarrow> sint c = sint a + sint b"
  and sint_sub32: "sub32 a b = Inr c \<Longrightarrow> sint c = sint a - sint b"
  and sint_mul32: "mul32 a b = Inr c \<Longrightarrow> sint c = sint a * sint b"
  and sint_div32: "div32 a b = Inr c \<Longrightarrow> sint c = sint a sdiv sint b"
  by (simp_all add: add32_def sub32_def mul32_def div32_def i32_of_Inr)

section \<open>Little-endian object representations\<close>

text \<open>
  \<open>le_bytes n w\<close> are the \<open>n\<close> bytes of the object that holds \<open>w\<close>, \<open>of_le_bytes\<close> the value
  of an object with the given bytes.
\<close>

definition le_bytes :: "nat \<Rightarrow> 'a::len word \<Rightarrow> byte list" where
  "le_bytes n w = map (\<lambda>i. ucast (drop_bit (8 * i) w)) [0..<n]"

fun of_le_bytes :: "byte list \<Rightarrow> 'a::len word" where
  "of_le_bytes [] = 0"
| "of_le_bytes (b # bs) = ucast b OR push_bit 8 (of_le_bytes bs)"

lemma length_le_bytes [simp]: "length (le_bytes n w) = n"
  by (simp add: le_bytes_def)

lemma bit_of_le_bytes:
  "bit (of_le_bytes bs :: 'a::len word) k \<longleftrightarrow>
     k < LENGTH('a) \<and> k div 8 < length bs \<and> bit (bs ! (k div 8)) (k mod 8)"
proof (induction bs arbitrary: k)
  case Nil
  show ?case by simp
next
  case (Cons b bs)
  show ?case
  proof (cases "k < 8")
    case True
    then show ?thesis
      by (auto simp: bit_simps)
  next
    case False
    then have "k div 8 = Suc ((k - 8) div 8)" and "(k - 8) mod 8 = k mod 8"
      by (simp_all add: le_div_geq le_mod_geq)
    moreover have "\<not> bit b k"
      using False bit_imp_le_length [of b k] by auto
    ultimately show ?thesis
      using False Cons.IH [of "k - 8"] by (auto simp: bit_simps)
  qed
qed

lemma of_le_bytes_le_bytes [simp]:
  assumes "8 * n = LENGTH('a)"
  shows "of_le_bytes (le_bytes n w) = (w :: 'a::len word)"
proof (rule bit_word_eqI)
  fix k
  assume k: "k < LENGTH('a)"
  then have "k div 8 < n"
    using assms by auto
  then show "bit (of_le_bytes (le_bytes n w) :: 'a word) k \<longleftrightarrow> bit w k"
    using k by (simp add: bit_of_le_bytes le_bytes_def bit_simps)
qed

lemma le_bytes_of_le_bytes [simp]:
  assumes "length bs = n" and "8 * n \<le> LENGTH('a)"
  shows "le_bytes n (of_le_bytes bs :: 'a::len word) = bs"
proof (rule nth_equalityI)
  show "length (le_bytes n (of_le_bytes bs :: 'a word)) = length bs"
    using assms(1) by simp
next
  fix i
  assume "i < length (le_bytes n (of_le_bytes bs :: 'a word))"
  then have i: "i < n" by simp
  show "le_bytes n (of_le_bytes bs :: 'a word) ! i = bs ! i"
  proof (rule bit_word_eqI)
    fix k
    assume "k < LENGTH(8)"
    then have k: "k < 8" by simp
    then have "8 * i + k < LENGTH('a)"
      using i assms(2) by linarith
    then show "bit (le_bytes n (of_le_bytes bs :: 'a word) ! i) k \<longleftrightarrow> bit (bs ! i) k"
      using i k assms(1) by (simp add: le_bytes_def bit_simps bit_of_le_bytes)
  qed
qed

end
