(* ===== verification/Cpp_Iostream.thy ===== *)
theory Cpp_Iostream
  imports Cpp_Int
begin

text \<open>
  The part of the C++ standard library that the code reads and prints text with, in the
  classic locale: decimal printing (\<open>operator<<\<close>, \<open>std::to_string\<close>), \<open>std::stoi\<close>, and
  input streams over a character buffer with their \<open>eofbit\<close> and \<open>failbit\<close>
  (\<open>operator>>\<close> on strings and integers, \<open>std::getline\<close>). Characters are bytes.
\<close>

section \<open>Printing numbers\<close>

definition digit_char :: "nat \<Rightarrow> char" where
  "digit_char d = char_of (48 + d)"

fun show_nat :: "nat \<Rightarrow> string" where
  "show_nat n = (if n < 10 then [digit_char n] else show_nat (n div 10) @ [digit_char (n mod 10)])"

declare show_nat.simps [simp del]

definition show_int :: "int \<Rightarrow> string" where
  "show_int k = (if k < 0 then CHR ''-'' # show_nat (nat (- k)) else show_nat (nat k))"

section \<open>Reading numbers\<close>

definition is_space :: "char \<Rightarrow> bool" where
  "is_space c \<longleftrightarrow> (let k = of_char c :: nat in k = 32 \<or> 9 \<le> k \<and> k \<le> 13)"

definition is_digit :: "char \<Rightarrow> bool" where
  "is_digit c \<longleftrightarrow> (let k = of_char c :: nat in 48 \<le> k \<and> k \<le> 57)"

definition digit_val :: "char \<Rightarrow> nat" where
  "digit_val c = of_char c - 48"

definition nat_of_digits :: "string \<Rightarrow> nat" where
  "nat_of_digits ds = foldl (\<lambda>a c. 10 * a + digit_val c) 0 ds"

text \<open>The optional sign and the digits an integer field starts with, and what follows.\<close>

definition scan_int :: "string \<Rightarrow> bool \<times> string \<times> string" where
  "scan_int s =
     (case s of
        [] \<Rightarrow> (False, [], [])
      | c # cs \<Rightarrow>
          let neg = (c = CHR ''-'');
              t = (if neg \<or> c = CHR ''+'' then cs else s)
          in (neg, takeWhile is_digit t, dropWhile is_digit t))"

definition signed_value :: "bool \<Rightarrow> string \<Rightarrow> int" where
  "signed_value neg ds = (if neg then - int (nat_of_digits ds) else int (nat_of_digits ds))"

text \<open>
  \<open>std::stoi\<close>: white space, then an integer; text after it is ignored. It throws
  \<open>std::invalid_argument\<close> when there is no digit and \<open>std::out_of_range\<close> when the value is
  no \<open>int\<close>.
\<close>

definition stoi :: "string \<Rightarrow> int cpp" where
  "stoi s =
     (case scan_int (dropWhile is_space s) of
        (neg, ds, _) \<Rightarrow>
          if ds = [] then Inl Uncaught_Exception
          else if in_i32 (signed_value neg ds) then Inr (signed_value neg ds)
          else Inl Uncaught_Exception)"

section \<open>Input streams\<close>

record istream =
  buf :: string
  eofbit :: bool
  failbit :: bool

definition istringstream :: "string \<Rightarrow> istream" where
  "istringstream s = \<lparr>buf = s, eofbit = False, failbit = False\<rparr>"

definition good :: "istream \<Rightarrow> bool" where
  "good s \<longleftrightarrow> \<not> eofbit s \<and> \<not> failbit s"

text \<open>
  The sentry of formatted input: a stream that is not good fails; otherwise white space is
  skipped, and running out of characters sets both bits. It says whether to go on.
\<close>

definition sentry :: "istream \<Rightarrow> bool \<times> istream" where
  "sentry s =
     (if \<not> good s then (False, s\<lparr>failbit := True\<rparr>)
      else let b = dropWhile is_space (buf s)
           in if b = [] then (False, s\<lparr>buf := [], eofbit := True, failbit := True\<rparr>)
              else (True, s\<lparr>buf := b\<rparr>))"

text \<open>\<open>in >> str\<close>: a word up to the next white space; \<open>str\<close> keeps its value when the sentry fails.\<close>

definition extract_string :: "string \<Rightarrow> istream \<Rightarrow> string \<times> istream" where
  "extract_string old s =
     (case sentry s of
        (False, s') \<Rightarrow> (old, s')
      | (True, s') \<Rightarrow>
          let w = takeWhile (\<lambda>c. \<not> is_space c) (buf s');
              rest = dropWhile (\<lambda>c. \<not> is_space c) (buf s')
          in (w, s'\<lparr>buf := rest, eofbit := (rest = [])\<rparr>))"

text \<open>
  \<open>in >> k\<close> for an \<open>int32_t\<close>: no digit stores 0 and fails, a value out of range stores the
  nearest bound and fails.
\<close>

definition extract_i32 :: "i32 \<Rightarrow> istream \<Rightarrow> i32 \<times> istream" where
  "extract_i32 old s =
     (case sentry s of
        (False, s') \<Rightarrow> (old, s')
      | (True, s') \<Rightarrow>
          (case scan_int (buf s') of
             (neg, ds, rest) \<Rightarrow>
               let s'' = s'\<lparr>buf := rest, eofbit := (rest = [])\<rparr>; v = signed_value neg ds
               in if ds = [] then (0, s''\<lparr>failbit := True\<rparr>)
                  else if v < - (2 ^ 31) then (word_of_int (- (2 ^ 31)), s''\<lparr>failbit := True\<rparr>)
                  else if 2 ^ 31 \<le> v then (word_of_int (2 ^ 31 - 1), s''\<lparr>failbit := True\<rparr>)
                  else (word_of_int v, s'')))"

text \<open>
  \<open>in >> n\<close> for a \<open>std::size_t\<close>: a minus sign negates modulo \<open>2 ^ 64\<close>; a magnitude that
  does not fit stores the maximum and fails.
\<close>

definition extract_size :: "size_t \<Rightarrow> istream \<Rightarrow> size_t \<times> istream" where
  "extract_size old s =
     (case sentry s of
        (False, s') \<Rightarrow> (old, s')
      | (True, s') \<Rightarrow>
          (case scan_int (buf s') of
             (neg, ds, rest) \<Rightarrow>
               let s'' = s'\<lparr>buf := rest, eofbit := (rest = [])\<rparr>
               in if ds = [] then (0, s''\<lparr>failbit := True\<rparr>)
                  else if 2 ^ 64 \<le> nat_of_digits ds then (- 1, s''\<lparr>failbit := True\<rparr>)
                  else (word_of_int (signed_value neg ds), s'')))"

text \<open>
  \<open>std::getline (in, str, delim)\<close>: the sentry skips no white space and a stream that is not
  good leaves \<open>str\<close> alone. Otherwise \<open>str\<close> is what stands before the delimiter, which is
  consumed; the end of the buffer sets \<open>eofbit\<close>, and \<open>failbit\<close> too if nothing was read.
\<close>

definition getline :: "char \<Rightarrow> string \<Rightarrow> istream \<Rightarrow> string \<times> istream" where
  "getline delim old s =
     (if \<not> good s then (old, s\<lparr>failbit := True\<rparr>)
      else let l = takeWhile (\<lambda>c. c \<noteq> delim) (buf s);
               rest = dropWhile (\<lambda>c. c \<noteq> delim) (buf s)
           in (l, if rest = []
                  then s\<lparr>buf := [], eofbit := True, failbit := (l = [])\<rparr>
                  else s\<lparr>buf := tl rest\<rparr>))"

section \<open>Printing and reading back\<close>

lemma of_char_digit_char: "d < 10 \<Longrightarrow> (of_char (digit_char d) :: nat) = 48 + d"
  by (simp add: digit_char_def)

lemma digit_char_facts [simp]:
  assumes "d < 10"
  shows "is_digit (digit_char d)" and "\<not> is_space (digit_char d)" and "digit_val (digit_char d) = d"
  using assms by (simp_all add: is_digit_def is_space_def digit_val_def of_char_digit_char Let_def)

lemma is_digit_not_space: "is_digit c \<Longrightarrow> \<not> is_space c"
  by (auto simp: is_digit_def is_space_def Let_def)

lemma nat_of_digits_snoc [simp]: "nat_of_digits (ds @ [c]) = 10 * nat_of_digits ds + digit_val c"
  by (simp add: nat_of_digits_def)

lemma show_nat_not_Nil [simp]: "show_nat n \<noteq> []"
  by (subst show_nat.simps) simp

lemma show_nat_digits: "c \<in> set (show_nat n) \<Longrightarrow> is_digit c"
proof (induction n rule: show_nat.induct)
  case (1 n)
  then show ?case
    by (subst (asm) (2) show_nat.simps) (auto split: if_splits)
qed

lemma nat_of_digits_show_nat [simp]: "nat_of_digits (show_nat n) = n"
proof (induction n rule: show_nat.induct)
  case (1 n)
  show ?case
  proof (cases "n < 10")
    case True
    then show ?thesis
      by (subst show_nat.simps) (simp add: nat_of_digits_def)
  next
    case False
    then show ?thesis
      using 1 by (subst show_nat.simps) simp
  qed
qed

text \<open>A printed integer is read back whole, up to the first character that is no digit.\<close>

definition ends_number :: "string \<Rightarrow> bool" where
  "ends_number rest \<longleftrightarrow> (case rest of [] \<Rightarrow> True | c # _ \<Rightarrow> \<not> is_digit c)"

lemma ends_number_simps [simp]: "ends_number []" "ends_number (c # cs) \<longleftrightarrow> \<not> is_digit c"
  by (simp_all add: ends_number_def)

lemma takeWhile_digits:
  "ends_number rest \<Longrightarrow> takeWhile is_digit (show_nat n @ rest) = show_nat n"
  by (cases rest) (auto simp: takeWhile_append show_nat_digits)

lemma dropWhile_digits:
  "ends_number rest \<Longrightarrow> dropWhile is_digit (show_nat n @ rest) = rest"
  by (cases rest) (auto simp: dropWhile_append show_nat_digits)

lemma minus_plus_not_digit [simp]: "\<not> is_digit CHR ''-''" "\<not> is_digit CHR ''+''" "\<not> is_space CHR ''-''"
  by (simp_all add: is_digit_def is_space_def)

lemma scan_int_show_nat:
  assumes "ends_number rest"
  shows "scan_int (show_nat n @ rest) = (False, show_nat n, rest)"
proof -
  obtain c cs where c: "show_nat n = c # cs"
    by (cases "show_nat n") auto
  have "is_digit c"
    using show_nat_digits [of c n] c by simp
  then have "c \<noteq> CHR ''-''" and "c \<noteq> CHR ''+''"
    by auto
  then show ?thesis
    using takeWhile_digits [OF assms, of n] dropWhile_digits [OF assms, of n]
    by (simp add: scan_int_def c)
qed

lemma scan_int_show_int:
  assumes "ends_number rest"
  shows "scan_int (show_int k @ rest) = (k < 0, show_nat (nat \<bar>k\<bar>), rest)"
proof (cases "k < 0")
  case True
  then show ?thesis
    using takeWhile_digits [OF assms, of "nat (- k)"] dropWhile_digits [OF assms, of "nat (- k)"]
    by (simp add: show_int_def scan_int_def)
next
  case False
  then show ?thesis
    using scan_int_show_nat [OF assms, of "nat k"] by (simp add: show_int_def)
qed

lemma signed_value_show: "signed_value (k < 0) (show_nat (nat \<bar>k\<bar>)) = k"
  by (simp add: signed_value_def)

lemma show_int_head:
  obtains c cs where "show_int k = c # cs" and "\<not> is_space c"
proof (cases "k < 0")
  case True
  then show ?thesis using that by (simp add: show_int_def)
next
  case False
  obtain c cs where c: "show_nat (nat k) = c # cs"
    by (cases "show_nat (nat k)") auto
  then have "\<not> is_space c"
    using show_nat_digits [of c "nat k"] is_digit_not_space by simp
  then show ?thesis using that False c by (simp add: show_int_def)
qed

lemma show_int_not_Nil [simp]: "show_int k \<noteq> []"
  by (rule show_int_head [of k]) simp

lemma dropWhile_space_show_int [simp]: "dropWhile is_space (show_int k @ rest) = show_int k @ rest"
  by (rule show_int_head [of k]) simp

lemma stoi_show_int:
  assumes "ends_number rest" and "in_i32 k"
  shows "stoi (show_int k @ rest) = Inr k"
  using assms by (simp add: stoi_def scan_int_show_int signed_value_show)

lemma stoi_range: "stoi s = Inr k \<Longrightarrow> in_i32 k"
  by (auto simp: stoi_def split: prod.splits if_splits)

section \<open>Reading a separated field\<close>

text \<open>
  The streams the code builds hold words and numbers with white space between them. One
  extraction consumes the white space before its field (here at most one character) and
  leaves what follows.
\<close>

abbreviation stream :: "string \<Rightarrow> istream" where
  "stream b \<equiv> \<lparr>buf = b, eofbit = False, failbit = False\<rparr>"

definition is_word :: "string \<Rightarrow> bool" where
  "is_word w \<longleftrightarrow> w \<noteq> [] \<and> (\<forall>c \<in> set w. \<not> is_space c)"

definition ends_word :: "string \<Rightarrow> bool" where
  "ends_word rest \<longleftrightarrow> (case rest of [] \<Rightarrow> True | c # _ \<Rightarrow> is_space c)"

lemma ends_word_simps [simp]: "ends_word []" "ends_word (c # cs) \<longleftrightarrow> is_space c"
  by (simp_all add: ends_word_def)

lemma ends_word_number [simp]: "ends_word rest \<Longrightarrow> ends_number rest"
  by (cases rest) (auto dest: is_digit_not_space)

lemma is_space_blank [simp]: "is_space CHR '' ''" "is_space (CHR ''\<newline>'')"
  by (simp_all add: is_space_def)

lemma takeWhile_word [simp]:
  "is_word w \<Longrightarrow> ends_word rest \<Longrightarrow> takeWhile (\<lambda>c. \<not> is_space c) (w @ rest) = w"
  by (cases rest) (auto simp: is_word_def takeWhile_append)

lemma dropWhile_word [simp]:
  "is_word w \<Longrightarrow> ends_word rest \<Longrightarrow> dropWhile (\<lambda>c. \<not> is_space c) (w @ rest) = rest"
  by (cases rest) (auto simp: is_word_def dropWhile_append)

lemma dropWhile_space_word [simp]: "is_word w \<Longrightarrow> dropWhile is_space (w @ rest) = w @ rest"
  by (cases w) (auto simp: is_word_def)

lemma is_word_not_Nil [simp]: "is_word w \<Longrightarrow> w \<noteq> []"
  by (simp add: is_word_def)

lemma is_word_show_int [simp]: "is_word (show_int k)"
  by (auto simp: is_word_def show_int_def dest: show_nat_digits is_digit_not_space)

lemma sentry_word: "is_word w \<Longrightarrow> sentry (stream (w @ rest)) = (True, stream (w @ rest))"
  by (simp add: sentry_def good_def)

lemma sentry_skip: "is_space c \<Longrightarrow> sentry (stream (c # b)) = sentry (stream b)"
  by (simp add: sentry_def good_def)

lemma extract_skip [simp]:
  assumes "is_space c"
  shows "extract_string w (stream (c # b)) = extract_string w (stream b)"
    and "extract_i32 k (stream (c # b)) = extract_i32 k (stream b)"
    and "extract_size n (stream (c # b)) = extract_size n (stream b)"
  using assms by (simp_all add: extract_string_def extract_i32_def extract_size_def sentry_skip)

lemma extract_string_word [simp]:
  assumes "is_word w" and "ends_word rest"
  shows "extract_string old (stream (w @ rest)) =
           (w, \<lparr>buf = rest, eofbit = (rest = []), failbit = False\<rparr>)"
  using assms by (simp add: extract_string_def sentry_word del: dropWhile_eq_Nil_conv)

lemma extract_i32_show [simp]:
  assumes "ends_word rest"
  shows "extract_i32 old (stream (show_int (sint w) @ rest)) =
           (w, \<lparr>buf = rest, eofbit = (rest = []), failbit = False\<rparr>)"
proof -
  have "- (2 ^ 31) \<le> sint w" and "sint w < 2 ^ 31"
    using in_i32_sint [of w] by (simp_all add: in_i32_def)
  then show ?thesis
    using assms by (simp add: extract_i32_def sentry_word scan_int_show_int signed_value_show)
qed

lemma show_nat_show_int: "show_nat n = show_int (int n)"
  by (simp add: show_int_def)

lemma extract_size_show [simp]:
  assumes "ends_word rest"
  shows "extract_size old (stream (show_nat (unat w) @ rest)) =
           (w, \<lparr>buf = rest, eofbit = (rest = []), failbit = False\<rparr>)"
proof -
  have "unat w < 2 ^ 64"
    using unsigned_less [of w, where ?'a = nat] by simp
  moreover have "scan_int (show_nat (unat w) @ rest) = (False, show_nat (unat w), rest)"
    using assms by (intro scan_int_show_nat) simp
  moreover have "word_of_int (signed_value False (show_nat (unat w))) = w"
    by (simp add: signed_value_def)
  moreover have "is_word (show_nat (unat w))"
    by (simp add: show_nat_show_int)
  ultimately show ?thesis
    by (simp add: extract_size_def sentry_word)
qed

section \<open>Reading all lines\<close>

text \<open>The lines of a stream: the loop \<open>while (std::getline (in, line))\<close>, which ends when \<open>getline\<close> fails.\<close>

definition chars_left :: "istream \<Rightarrow> nat" where
  "chars_left s = (if good s then Suc (length (buf s)) else 0)"

lemma getline_shrinks:
  assumes "getline c old s = (l, s')" and "\<not> failbit s'"
  shows "chars_left s' < chars_left s"
proof -
  have "length (dropWhile (\<lambda>x. x \<noteq> c) (buf s)) \<le> length (buf s)"
    by (rule length_dropWhile_le)
  then have "buf s \<noteq> [] \<Longrightarrow> length (dropWhile (\<lambda>x. x \<noteq> c) (buf s)) - Suc 0 < length (buf s)"
    by (simp only: length_greater_0_conv [symmetric])
  then show ?thesis
    using assms by (cases "buf s = []") (auto simp: getline_def good_def Let_def chars_left_def split: if_splits)
qed

function read_lines :: "istream \<Rightarrow> string list" where
  "read_lines inp =
     (let (line, inp') = getline (CHR ''\<newline>'') [] inp
      in if failbit inp' then [] else line # read_lines inp')"
  by pat_completeness auto
termination
  by (relation "measure chars_left") (auto intro: getline_shrinks [OF sym])

declare read_lines.simps [simp del]

lemma read_lines_unfold:
  "read_lines (stream (l @ CHR ''\<newline>'' # rest)) = l # read_lines (stream rest)"
  if "CHR ''\<newline>'' \<notin> set l"
  using that
  by (subst read_lines.simps) (simp add: getline_def good_def takeWhile_append dropWhile_append)

lemma read_lines_last:
  "read_lines (stream l) = (if l = [] then [] else [l])" if "CHR ''\<newline>'' \<notin> set l"
proof -
  have t: "takeWhile (\<lambda>c. c \<noteq> CHR ''\<newline>'') l = l" and "dropWhile (\<lambda>c. c \<noteq> CHR ''\<newline>'') l = []"
    using that by (auto simp: takeWhile_eq_all_conv)
  then have "getline (CHR ''\<newline>'') [] (stream l) = (l, \<lparr>buf = [], eofbit = True, failbit = (l = [])\<rparr>)"
    by (simp add: getline_def good_def Let_def t)
  moreover have "read_lines \<lparr>buf = [], eofbit = True, failbit = False\<rparr> = []"
    by (subst read_lines.simps) (simp add: getline_def good_def)
  ultimately show ?thesis
    by (subst read_lines.simps) simp
qed

text \<open>The lines of a text, whether or not the last one is terminated.\<close>

lemma read_lines_text:
  "\<forall>l \<in> set ls. CHR ''\<newline>'' \<notin> set l \<Longrightarrow> CHR ''\<newline>'' \<notin> set e \<Longrightarrow>
   read_lines (stream (concat (map (\<lambda>l. l @ ''\<newline>'') ls) @ e)) = ls @ (if e = [] then [] else [e])"
  by (induction ls) (simp_all add: read_lines_unfold read_lines_last)

end
