(* ===== verification/VMM_Types.thy ===== *)
theory VMM_Types
  imports Cpp_Iostream
begin

text \<open>
  The shared data types of \<open>include/common/types.hpp\<close>. A \<open>std::array\<close> or \<open>std::vector\<close> is a
  list (a register file has 32 elements), an \<open>std::unordered_map\<close> a partial function. The
  enumerator \<open>FaultType::None\<close> is \<open>NoFault\<close>. A priority is only ever compared, so it is an
  \<open>int\<close> here.
\<close>

type_synonym RegisterFile = "i32 list"

record CpuState =
  regs :: RegisterFile
  hi :: i32
  lo :: i32
  pc :: size_t

definition CpuState_init :: CpuState where
  "CpuState_init = \<lparr>regs = replicate 32 0, hi = 0, lo = 0, pc = 0\<rparr>"

datatype VmStatus = Ready | Running | Blocked | Halted | Faulted

datatype FaultType = NoFault | IllegalOpcode | DivideByZero | PageFault | AddressOutOfRange

record VmFault =
  fault_type :: FaultType
  message :: string

definition VmFault_init :: VmFault where
  "VmFault_init = \<lparr>fault_type = NoFault, message = []\<rparr>"

record VmConfig =
  name :: string
  execSlice :: size_t
  priority :: int
  programPath :: string
  configMemoryBytes :: size_t

definition VmConfig_init :: VmConfig where
  "VmConfig_init =
     \<lparr>name = [], execSlice = 50, priority = 1, programPath = [], configMemoryBytes = 64 * 1024\<rparr>"

type_synonym page_table = "u32 \<rightharpoonup> u32"

record VmSnapshot =
  vmName :: string
  cpu :: CpuState
  pageTable :: page_table
  memoryBytes :: "byte list"

definition VmSnapshot_init :: VmSnapshot where
  "VmSnapshot_init = \<lparr>vmName = [], cpu = CpuState_init, pageTable = Map.empty, memoryBytes = []\<rparr>"

record SchedulerStats =
  instructionsByVm :: "string \<rightharpoonup> size_t"
  dispatchCountByVm :: "string \<rightharpoonup> size_t"

text \<open>
  A virtual machine that is \<open>Halted\<close> or \<open>Faulted\<close> is done: the schedulers and the
  hypervisor test for exactly these two.
\<close>

definition is_done :: "VmStatus \<Rightarrow> bool" where
  "is_done s \<longleftrightarrow> s = Halted \<or> s = Faulted"

lemma is_done_simps [simp]:
  "is_done Halted" "is_done Faulted" "\<not> is_done Ready" "\<not> is_done Running" "\<not> is_done Blocked"
  by (simp_all add: is_done_def)

lemma is_done_iff: "is_done s \<longleftrightarrow> \<not> (s = Ready \<or> s = Running \<or> s = Blocked)"
  by (cases s) simp_all

text \<open>Statuses in the order in which a machine passes through them: the done ones come last.\<close>

instantiation VmStatus :: preorder
begin

definition less_eq_VmStatus :: "VmStatus \<Rightarrow> VmStatus \<Rightarrow> bool" where
  "s \<le> t \<longleftrightarrow> (is_done s \<longrightarrow> is_done t)"

definition less_VmStatus :: "VmStatus \<Rightarrow> VmStatus \<Rightarrow> bool" where
  "s < t \<longleftrightarrow> \<not> is_done s \<and> is_done t" for s t :: VmStatus

instance
  by standard (auto simp: less_eq_VmStatus_def less_VmStatus_def)

end

definition wf_cpu :: "CpuState \<Rightarrow> bool" where
  "wf_cpu c \<longleftrightarrow> length (regs c) = 32"

lemma wf_cpu_init [simp]: "wf_cpu CpuState_init"
  by (simp add: wf_cpu_def CpuState_init_def)

text \<open>A snapshot read field by field differs from the original in the page table only.\<close>

lemma VmSnapshot_eqI:
  fixes s t :: VmSnapshot
  shows "t\<lparr>vmName := vmName s, cpu := \<lparr>regs = regs (cpu s), hi = hi (cpu s), lo = lo (cpu s), pc = pc (cpu s)\<rparr>,
     memoryBytes := memoryBytes s\<rparr> = s\<lparr>pageTable := pageTable t\<rparr>"
  by (cases s; cases "cpu s"; cases t) simp

end
