(* ===== verification/Instructions.thy ===== *)
theory Instructions
  imports VMM_Types
begin

text \<open>
  The instruction model and the assembler front end: \<open>include/cpu/instruction.hpp\<close> and
  \<open>src/cpu/instruction.cpp\<close>. A register operand is an \<open>int\<close> that \<open>std::stoi\<close> produced, not
  necessarily the index of a register.
\<close>

section \<open>Instructions\<close>

datatype Opcode =
    Li | Add | Addi | Sub | Mul | Div | And | Or | Xor | Sll | Srl | Lw | Sw
  | DumpProcessorState | Snapshot | Migrate | Halt | Invalid

record Instruction =
  opcode :: Opcode
  rd :: int
  rs :: int
  rt :: int
  imm :: i32
  label :: string

definition Instruction_init :: Instruction where
  "Instruction_init = \<lparr>opcode = Invalid, rd = 0, rs = 0, rt = 0, imm = 0, label = []\<rparr>"

section \<open>The parser\<close>

definition ParseRegister :: "string \<Rightarrow> int cpp" where
  "ParseRegister token =
     (if length token < 2 \<or> token ! 0 \<noteq> CHR ''$'' then Inr 0 else stoi (drop 1 token))"

definition TrimComma :: "string \<Rightarrow> string" where
  "TrimComma token = (if token \<noteq> [] \<and> last token = CHR '','' then butlast token else token)"

text \<open>The three-register form \<open>op rd, rs, rt\<close>, which four branches of the parser share word for word.\<close>

definition parse_rrr :: "Opcode \<Rightarrow> istream \<Rightarrow> Instruction cpp" where
  "parse_rrr opc iss =
     (let (rd', iss1) = extract_string [] iss;
          (rs', iss2) = extract_string [] iss1;
          (rt', iss3) = extract_string [] iss2
      in bind_cpp (ParseRegister (TrimComma rd')) (\<lambda>d.
         bind_cpp (ParseRegister (TrimComma rs')) (\<lambda>s.
         bind_cpp (ParseRegister (TrimComma rt')) (\<lambda>t.
         Inr (Instruction_init\<lparr>opcode := opc, rd := d, rs := s, rt := t\<rparr>)))))"

text \<open>The body of the loop of \<open>ParseProgram\<close> after the mnemonic: one branch per mnemonic.\<close>

definition parse_operands :: "string \<Rightarrow> istream \<Rightarrow> Instruction cpp" where
  "parse_operands op iss =
    (if op = ''li'' then
       let (rd', iss1) = extract_string [] iss; (k, iss2) = extract_i32 0 iss1
       in bind_cpp (ParseRegister (TrimComma rd')) (\<lambda>d.
          Inr (Instruction_init\<lparr>imm := k, opcode := Li, rd := d\<rparr>))
     else if op = ''add'' then parse_rrr Add iss
     else if op = ''addi'' then
       let (rd', iss1) = extract_string [] iss; (rs', iss2) = extract_string [] iss1;
           (k, iss3) = extract_i32 0 iss2
       in bind_cpp (ParseRegister (TrimComma rd')) (\<lambda>d.
          bind_cpp (ParseRegister (TrimComma rs')) (\<lambda>s.
          Inr (Instruction_init\<lparr>imm := k, opcode := Addi, rd := d, rs := s\<rparr>)))
     else if op = ''lw'' then
       let (rd', iss1) = extract_string [] iss; (k, iss2) = extract_i32 0 iss1
       in bind_cpp (ParseRegister (TrimComma rd')) (\<lambda>d.
          Inr (Instruction_init\<lparr>imm := k, opcode := Lw, rd := d\<rparr>))
     else if op = ''sw'' then
       let (rs', iss1) = extract_string [] iss; (k, iss2) = extract_i32 0 iss1
       in bind_cpp (ParseRegister (TrimComma rs')) (\<lambda>s.
          Inr (Instruction_init\<lparr>imm := k, opcode := Sw, rs := s\<rparr>))
     else if op = ''DUMP_PROCESSOR_STATE'' then
       Inr (Instruction_init\<lparr>opcode := DumpProcessorState\<rparr>)
     else if op = ''SNAPSHOT'' then
       Inr (Instruction_init\<lparr>opcode := Snapshot, label := fst (extract_string [] iss)\<rparr>)
     else if op = ''MIGRATE'' then
       Inr (Instruction_init\<lparr>opcode := Migrate, label := fst (extract_string [] iss)\<rparr>)
     else if op = ''HALT'' then Inr (Instruction_init\<lparr>opcode := Halt\<rparr>)
     else if op = ''sub'' then parse_rrr Sub iss
     else if op = ''mul'' then parse_rrr Mul iss
     else if op = ''div'' then
       let (rs', iss1) = extract_string [] iss; (rt', iss2) = extract_string [] iss1
       in bind_cpp (ParseRegister (TrimComma rs')) (\<lambda>s.
          bind_cpp (ParseRegister (TrimComma rt')) (\<lambda>t.
          Inr (Instruction_init\<lparr>opcode := Div, rs := s, rt := t\<rparr>)))
     else Inr (Instruction_init\<lparr>opcode := Invalid, label := op\<rparr>))"

text \<open>One line: \<open>None\<close> where the loop continues without an instruction (blank or comment).\<close>

definition parse_line :: "string \<Rightarrow> Instruction option cpp" where
  "parse_line line =
     (let (op, iss) = extract_string [] (istringstream line)
      in if op = [] \<or> op ! 0 = CHR ''#'' then Inr None
         else bind_cpp (parse_operands op iss) (\<lambda>inst. Inr (Some inst)))"

fun ParseProgram :: "string list \<Rightarrow> Instruction list cpp" where
  "ParseProgram [] = Inr []"
| "ParseProgram (line # lines) =
     bind_cpp (parse_line line) (\<lambda>r.
     bind_cpp (ParseProgram lines) (\<lambda>prog.
     Inr (case r of None \<Rightarrow> prog | Some inst \<Rightarrow> inst # prog)))"

section \<open>The assembly text of an instruction\<close>

text \<open>
  The specification of the parser: \<open>render\<close> writes an instruction the way the programs of the
  repository are written, and \<open>canonical\<close> says which instructions have such a text. The five
  enumerators \<open>And\<close>, \<open>Or\<close>, \<open>Xor\<close>, \<open>Sll\<close>, \<open>Srl\<close> have none.
\<close>

definition mnemonics :: "string list" where
  "mnemonics = [''li'', ''add'', ''addi'', ''lw'', ''sw'', ''DUMP_PROCESSOR_STATE'', ''SNAPSHOT'',
     ''MIGRATE'', ''HALT'', ''sub'', ''mul'', ''div'']"

definition reg_text :: "int \<Rightarrow> string" where
  "reg_text r = CHR ''$'' # show_int r"

definition label_text :: "string \<Rightarrow> string" where
  "label_text l = (if l = [] then [] else CHR '' '' # l)"

definition render :: "Instruction \<Rightarrow> string" where
  "render i =
     (let d = CHR '' '' # reg_text (rd i); s = CHR '' '' # reg_text (rs i);
          t = CHR '' '' # reg_text (rt i); k = CHR '' '' # show_int (sint (imm i));
          dst3 = d @ CHR '','' # s @ CHR '','' # t
      in case opcode i of
           Li \<Rightarrow> ''li'' @ d @ CHR '','' # k
         | Add \<Rightarrow> ''add'' @ dst3
         | Addi \<Rightarrow> ''addi'' @ d @ CHR '','' # s @ CHR '','' # k
         | Sub \<Rightarrow> ''sub'' @ dst3
         | Mul \<Rightarrow> ''mul'' @ dst3
         | Div \<Rightarrow> ''div'' @ s @ CHR '','' # t
         | Lw \<Rightarrow> ''lw'' @ d @ CHR '','' # k
         | Sw \<Rightarrow> ''sw'' @ s @ CHR '','' # k
         | DumpProcessorState \<Rightarrow> ''DUMP_PROCESSOR_STATE''
         | Snapshot \<Rightarrow> ''SNAPSHOT'' @ label_text (label i)
         | Migrate \<Rightarrow> ''MIGRATE'' @ label_text (label i)
         | Halt \<Rightarrow> ''HALT''
         | _ \<Rightarrow> label i)"

definition canonical :: "Instruction \<Rightarrow> bool" where
  "canonical i \<longleftrightarrow>
     in_i32 (rd i) \<and> in_i32 (rs i) \<and> in_i32 (rt i) \<and>
     (case opcode i of
        Li \<Rightarrow> rs i = 0 \<and> rt i = 0 \<and> label i = []
      | Addi \<Rightarrow> rt i = 0 \<and> label i = []
      | Div \<Rightarrow> rd i = 0 \<and> imm i = 0 \<and> label i = []
      | Lw \<Rightarrow> rs i = 0 \<and> rt i = 0 \<and> label i = []
      | Sw \<Rightarrow> rd i = 0 \<and> rt i = 0 \<and> label i = []
      | Snapshot \<Rightarrow> rd i = 0 \<and> rs i = 0 \<and> rt i = 0 \<and> imm i = 0 \<and> (label i = [] \<or> is_word (label i))
      | Migrate \<Rightarrow> rd i = 0 \<and> rs i = 0 \<and> rt i = 0 \<and> imm i = 0 \<and> (label i = [] \<or> is_word (label i))
      | DumpProcessorState \<Rightarrow> rd i = 0 \<and> rs i = 0 \<and> rt i = 0 \<and> imm i = 0 \<and> label i = []
      | Halt \<Rightarrow> rd i = 0 \<and> rs i = 0 \<and> rt i = 0 \<and> imm i = 0 \<and> label i = []
      | Invalid \<Rightarrow> rd i = 0 \<and> rs i = 0 \<and> rt i = 0 \<and> imm i = 0 \<and> is_word (label i) \<and>
                   label i \<notin> set mnemonics \<and> label i ! 0 \<noteq> CHR ''#''
      | opc \<Rightarrow> opc \<in> {Add, Sub, Mul} \<and> imm i = 0 \<and> label i = [])"

lemma in_i32_0 [simp]: "in_i32 0"
  by (simp add: in_i32_def)

lemma TrimComma_reg [simp]:
  "TrimComma (CHR ''$'' # show_int r @ '','') = CHR ''$'' # show_int r"
  by (simp add: TrimComma_def)

lemma show_int_last_digit: "is_digit (last (show_int k))"
proof -
  have "is_digit (last (show_nat n))" for n
    by (rule show_nat_digits [of _ n]) simp
  then show ?thesis
    by (simp add: show_int_def)
qed

lemma TrimComma_reg_no_comma [simp]: "TrimComma (CHR ''$'' # show_int r) = CHR ''$'' # show_int r"
  using show_int_last_digit [of r] by (auto simp: TrimComma_def is_digit_def)

lemma ParseRegister_reg [simp]:
  "in_i32 r \<Longrightarrow> ParseRegister (CHR ''$'' # show_int r) = Inr r"
  using stoi_show_int [of "[]" r] by (cases "show_int r") (simp_all add: ParseRegister_def)

lemma is_word_reg [simp]: "is_word (CHR ''$'' # show_int r)" "is_word (CHR ''$'' # show_int r @ '','')"
  using is_word_show_int [of r] by (auto simp: is_word_def is_space_def)

lemma extract_reg [simp]:
  assumes "ends_word rest"
  shows "extract_string old (stream (CHR ''$'' # show_int r @ rest)) =
           (CHR ''$'' # show_int r, \<lparr>buf = rest, eofbit = (rest = []), failbit = False\<rparr>)"
    and "extract_string old (stream (CHR ''$'' # show_int r @ CHR '','' # rest)) =
           (CHR ''$'' # show_int r @ '','', \<lparr>buf = rest, eofbit = (rest = []), failbit = False\<rparr>)"
  using extract_string_word [OF is_word_reg(1) assms, of old]
    extract_string_word [OF is_word_reg(2) assms, of old]
  by simp_all

lemma extract_reg_end [simp]:
  "extract_string old (stream (CHR ''$'' # show_int r)) =
     (CHR ''$'' # show_int r, \<lparr>buf = [], eofbit = True, failbit = False\<rparr>)"
  using extract_reg(1) [of "[]"] by simp

lemma extract_imm_end [simp]:
  "extract_i32 old (stream (show_int (sint w))) = (w, \<lparr>buf = [], eofbit = True, failbit = False\<rparr>)"
  using extract_i32_show [of "[]" old w] by simp

lemma extract_label:
  "l = [] \<or> is_word l \<Longrightarrow>
   fst (extract_string [] \<lparr>buf = label_text l, eofbit = (label_text l = []), failbit = False\<rparr>) = l"
proof (cases "l = []")
  case True
  then show ?thesis
    by (simp add: label_text_def extract_string_def sentry_def good_def)
next
  case False
  moreover assume "l = [] \<or> is_word l"
  ultimately show ?thesis
    using extract_string_word [of l "[]" "[]"] by (simp add: label_text_def)
qed

lemma parse_line_split:
  assumes "is_word op" and "ends_word rest" and "op ! 0 \<noteq> CHR ''#''"
  shows "parse_line (op @ rest) =
     bind_cpp (parse_operands op \<lparr>buf = rest, eofbit = (rest = []), failbit = False\<rparr>)
       (\<lambda>inst. Inr (Some inst))"
  using assms by (simp add: parse_line_def istringstream_def)

section \<open>What the parser accepts\<close>

lemma mnemonic_words:
  "is_word ''li''" "is_word ''add''" "is_word ''addi''" "is_word ''lw''" "is_word ''sw''"
  "is_word ''DUMP_PROCESSOR_STATE''" "is_word ''SNAPSHOT''" "is_word ''MIGRATE''" "is_word ''HALT''"
  "is_word ''sub''" "is_word ''mul''" "is_word ''div''"
  by (simp_all add: is_word_def is_space_def)

lemmas parse_line_mnemonic =
  mnemonic_words [THEN parse_line_split, simplified]
  mnemonic_words [THEN parse_line_split [where rest = "[]"], simplified]

lemma label_text_ends_word [simp]: "ends_word (label_text l)"
  by (simp add: label_text_def)

text \<open>The text of a canonical instruction is parsed back to it.\<close>

lemma parse_line_render: "canonical i \<Longrightarrow> parse_line (render i) = Inr (Some i)"
proof (cases "opcode i = Invalid")
  case True
  assume "canonical i"
  then show ?thesis
    using True parse_line_split [of "label i" "[]"]
    by (cases i) (simp add: canonical_def render_def parse_operands_def mnemonics_def Instruction_init_def)
next
  case False
  assume "canonical i"
  then show ?thesis
    using False extract_label [of "label i"]
    by (cases "opcode i"; cases i)
      (auto simp: canonical_def render_def reg_text_def parse_line_mnemonic parse_operands_def
        parse_rrr_def Instruction_init_def)
qed

text \<open>Conversely every instruction the parser produces is canonical.\<close>

lemma sentry_True: "sentry s = (True, s') \<Longrightarrow> \<exists>c cs. buf s' = c # cs \<and> \<not> is_space c"
proof -
  assume s: "sentry s = (True, s')"
  then have b: "buf s' = dropWhile is_space (buf s)" "buf s' \<noteq> []"
    by (auto simp: sentry_def Let_def split: if_splits)
  from b(2) obtain c cs where c: "buf s' = c # cs"
    by (auto simp: neq_Nil_conv)
  then have "\<not> is_space c"
    using b hd_dropWhile [of is_space "buf s"] by (metis list.sel(1))
  with c show ?thesis by blast
qed

lemma extract_string_is_word:
  assumes "extract_string [] s = (w, s')"
  shows "w = [] \<or> is_word w"
  using assms sentry_True [of s]
  by (auto simp: extract_string_def is_word_def Let_def dest: set_takeWhileD
      split: prod.splits bool.splits)

lemma ParseRegister_range: "ParseRegister t = Inr r \<Longrightarrow> in_i32 r"
  by (auto simp: ParseRegister_def dest: stoi_range split: if_splits)

lemma parse_rrr_canonical:
  "parse_rrr opc iss = Inr i \<Longrightarrow> opc \<in> {Add, Sub, Mul} \<Longrightarrow> canonical i"
  by (auto simp: parse_rrr_def canonical_def Instruction_init_def outcome_simps split_beta
      dest: ParseRegister_range)

lemma parse_operands_canonical:
  assumes "parse_operands op iss = Inr i" and "is_word op" and "op ! 0 \<noteq> CHR ''#''"
  shows "canonical i"
proof (cases "op \<in> {''add'', ''sub'', ''mul''}")
  case True
  then show ?thesis
    using assms(1) parse_rrr_canonical by (auto simp: parse_operands_def)
next
  case False
  have "fst (extract_string [] iss) = [] \<or> is_word (fst (extract_string [] iss))"
    by (rule extract_string_is_word [of iss _ "snd (extract_string [] iss)"]) simp
  then show ?thesis
    using False assms
    by (simp add: parse_operands_def Instruction_init_def split_beta split: if_splits)
      (auto simp: outcome_simps canonical_def mnemonics_def dest: ParseRegister_range)
qed

lemma parse_line_canonical:
  assumes "parse_line l = Inr (Some i)"
  shows "canonical i"
proof -
  obtain op iss where op: "extract_string [] (istringstream l) = (op, iss)"
    by (cases "extract_string [] (istringstream l)")
  with assms have "op \<noteq> []" and "op ! 0 \<noteq> CHR ''#''" and "parse_operands op iss = Inr i"
    by (auto simp: parse_line_def outcome_simps split: if_splits)
  with extract_string_is_word [OF op] show ?thesis
    using parse_operands_canonical by simp
qed

section \<open>Whole programs\<close>

lemma ParseProgram_Cons_Inr:
  "ParseProgram (l # ls) = Inr p \<longleftrightarrow>
     (\<exists>r q. parse_line l = Inr r \<and> ParseProgram ls = Inr q \<and>
        p = (case r of None \<Rightarrow> q | Some i \<Rightarrow> i # q))"
  by (auto simp: outcome_simps)

lemma ParseProgram_canonical:
  "ParseProgram ls = Inr p \<Longrightarrow> list_all canonical p \<and> length p \<le> length ls"
proof (induction ls arbitrary: p)
  case (Cons l ls)
  then obtain r q where "parse_line l = Inr r" "ParseProgram ls = Inr q"
    "p = (case r of None \<Rightarrow> q | Some i \<Rightarrow> i # q)"
    by (auto simp: outcome_simps)
  then show ?case
    using Cons.IH [of q] by (auto dest: parse_line_canonical split: option.splits)
qed simp

lemma ParseProgram_render: "list_all canonical p \<Longrightarrow> ParseProgram (map render p) = Inr p"
  by (induction p) (simp_all add: parse_line_render)

lemma ParseProgram_append:
  "ParseProgram (ls @ ms) =
     bind_cpp (ParseProgram ls) (\<lambda>p. bind_cpp (ParseProgram ms) (\<lambda>q. Inr (p @ q)))"
proof (induction ls)
  case Nil
  show ?case
    by (cases "ParseProgram ms") simp_all
next
  case (Cons l ls)
  then show ?case
    by (cases "parse_line l"; cases "ParseProgram ls"; cases "ParseProgram ms")
      (auto split: option.splits)
qed

end
