(* ===== verification/Virtual_Memory.thy ===== *)
theory Virtual_Memory
  imports VMM_Types
begin

text \<open>
  Paged virtual memory with a translation cache: \<open>include/memory/virtual_memory.hpp\<close> and
  \<open>src/memory/virtual_memory.cpp\<close>. The members \<open>bytes_\<close>, \<open>pageTable_\<close> and \<open>tlb_\<close> are the
  fields \<open>bytes\<close>, \<open>pages\<close> and \<open>tlb\<close>. An operation returns \<open>Inl\<close> of the fault it stores where
  the code returns false, and aborts where a \<open>memcpy\<close> would leave the backing store.
\<close>

section \<open>The code\<close>

record VirtualMemory =
  bytes :: "byte list"
  pages :: page_table
  tlb :: page_table

definition kPageSize :: u32 where
  "kPageSize = 4096"

text \<open>The loop of the constructor, which maps each of the first pages to itself.\<close>

definition identity_pages :: "u32 \<Rightarrow> page_table" where
  "identity_pages pageCount =
     foldl (\<lambda>m i. m(of_nat i \<mapsto> of_nat i)) Map.empty [0..<unat pageCount]"

definition VirtualMemory_new :: "size_t \<Rightarrow> VirtualMemory" where
  "VirtualMemory_new n =
     (let pageCount = ucast ((n + ucast kPageSize - 1) div ucast kPageSize)
      in \<lparr>bytes = replicate (unat n) 0, pages = identity_pages pageCount, tlb = Map.empty\<rparr>)"

definition MapPage :: "u32 \<Rightarrow> u32 \<Rightarrow> VirtualMemory \<Rightarrow> VirtualMemory" where
  "MapPage virtualPage physicalPage m =
     m\<lparr>pages := (pages m)(virtualPage \<mapsto> physicalPage),
       tlb := (tlb m)(virtualPage \<mapsto> physicalPage)\<rparr>"

definition page_fault :: VmFault where
  "page_fault = \<lparr>fault_type = PageFault, message = ''virtual page not mapped''\<rparr>"

definition range_fault :: VmFault where
  "range_fault = \<lparr>fault_type = AddressOutOfRange, message = ''address outside VM memory''\<rparr>"

text \<open>The check at the end of \<open>Translate\<close>: the sum is computed in \<open>std::size_t\<close> and cannot wrap.\<close>

definition check_range :: "VirtualMemory \<Rightarrow> u32 \<Rightarrow> VmFault + u32" where
  "check_range m physicalAddr =
     (if unat physicalAddr + 4 > length (bytes m) then Inl range_fault else Inr physicalAddr)"

definition Translate :: "u32 \<Rightarrow> VirtualMemory \<Rightarrow> (VmFault + u32) \<times> VirtualMemory" where
  "Translate virtualAddr m =
     (let virtualPage = virtualAddr div kPageSize; offset = virtualAddr mod kPageSize
      in case tlb m virtualPage of
           Some physicalPage \<Rightarrow> (check_range m (physicalPage * kPageSize + offset), m)
         | None \<Rightarrow>
             (case pages m virtualPage of
                None \<Rightarrow> (Inl page_fault, m)
              | Some physicalPage \<Rightarrow>
                  (check_range m (physicalPage * kPageSize + offset),
                   m\<lparr>tlb := (tlb m)(virtualPage \<mapsto> physicalPage)\<rparr>)))"

text \<open>\<open>std::memcpy\<close> out of and into the vector, undefined outside it.\<close>

definition memcpy_from :: "'a list \<Rightarrow> nat \<Rightarrow> nat \<Rightarrow> 'a list cpp" where
  "memcpy_from xs k n = (if k + n \<le> length xs then Inr (take n (drop k xs)) else Inl UB_Bounds)"

definition memcpy_to :: "'a list \<Rightarrow> nat \<Rightarrow> 'a list \<Rightarrow> 'a list cpp" where
  "memcpy_to xs k ys = (if k + length ys \<le> length xs then Inr (splice_at k ys xs) else Inl UB_Bounds)"

definition ReadWord :: "u32 \<Rightarrow> VirtualMemory \<Rightarrow> ((VmFault + i32) \<times> VirtualMemory) cpp" where
  "ReadWord virtualAddr m =
     (case Translate virtualAddr m of
        (Inl f, m') \<Rightarrow> Inr (Inl f, m')
      | (Inr paddr, m') \<Rightarrow>
          bind_cpp (memcpy_from (bytes m') (unat paddr) 4) (\<lambda>bs. Inr (Inr (of_le_bytes bs), m')))"

definition WriteWord :: "u32 \<Rightarrow> i32 \<Rightarrow> VirtualMemory \<Rightarrow> ((VmFault + unit) \<times> VirtualMemory) cpp" where
  "WriteWord virtualAddr v m =
     (case Translate virtualAddr m of
        (Inl f, m') \<Rightarrow> Inr (Inl f, m')
      | (Inr paddr, m') \<Rightarrow>
          bind_cpp (memcpy_to (bytes m') (unat paddr) (le_bytes 4 v)) (\<lambda>bs.
          Inr (Inr (), m'\<lparr>bytes := bs\<rparr>)))"

definition RestorePageTable :: "page_table \<Rightarrow> VirtualMemory \<Rightarrow> VirtualMemory" where
  "RestorePageTable pt m = m\<lparr>pages := pt, tlb := Map.empty\<rparr>"

section \<open>The specification: a page-table walk without a cache\<close>

definition page_walk :: "VirtualMemory \<Rightarrow> u32 \<Rightarrow> VmFault + u32" where
  "page_walk m a =
     (case pages m (a div kPageSize) of
        None \<Rightarrow> Inl page_fault
      | Some p \<Rightarrow> check_range m (p * kPageSize + a mod kPageSize))"

definition walk_read :: "VirtualMemory \<Rightarrow> u32 \<Rightarrow> VmFault + i32" where
  "walk_read m a =
     (case page_walk m a of
        Inl f \<Rightarrow> Inl f
      | Inr p \<Rightarrow> Inr (of_le_bytes (take 4 (drop (unat p) (bytes m)))))"

text \<open>What the walk sees of a memory: everything but the cache.\<close>

definition same_store :: "VirtualMemory \<Rightarrow> VirtualMemory \<Rightarrow> bool" where
  "same_store m m' \<longleftrightarrow> bytes m' = bytes m \<and> pages m' = pages m"

text \<open>The cache only holds entries of the page table.\<close>

definition coherent :: "VirtualMemory \<Rightarrow> bool" where
  "coherent m \<longleftrightarrow> tlb m \<subseteq>\<^sub>m pages m"

lemma coherentD: "coherent m \<Longrightarrow> tlb m v = Some p \<Longrightarrow> pages m v = Some p"
  by (auto simp: coherent_def map_le_def dom_def)

lemma check_range_cong: "bytes m' = bytes m \<Longrightarrow> check_range m' p = check_range m p"
  by (simp add: check_range_def)

lemma page_walk_cong: "same_store m m' \<Longrightarrow> page_walk m' a = page_walk m a"
  by (simp add: page_walk_def same_store_def check_range_def split: option.splits)

lemma walk_read_cong: "same_store m m' \<Longrightarrow> walk_read m' a = walk_read m a"
  using page_walk_cong [of m m' a] by (simp add: walk_read_def same_store_def split: sum.splits)

lemma page_walk_in_range: "page_walk m a = Inr p \<Longrightarrow> unat p + 4 \<le> length (bytes m)"
  by (auto simp: page_walk_def check_range_def split: option.splits if_splits)

text \<open>Translation with the cache is the walk, whatever the cache holds.\<close>

lemma Translate_walk:
  assumes "coherent m" and "Translate a m = (r, m')"
  shows "r = page_walk m a" and "coherent m'" and "same_store m m'"
  using assms
  by (auto simp: Translate_def page_walk_def same_store_def Let_def coherent_def map_le_def dom_def
      split: option.splits if_splits dest: coherentD)

lemma coherent_new [inv_intros]: "coherent (VirtualMemory_new n)"
  by (simp add: coherent_def VirtualMemory_new_def Let_def)

lemma coherent_MapPage [inv_intros]: "coherent m \<Longrightarrow> coherent (MapPage v p m)"
  by (auto simp: coherent_def MapPage_def map_le_def)

lemma coherent_RestorePageTable [inv_intros]: "coherent (RestorePageTable pt m)"
  by (simp add: coherent_def RestorePageTable_def)

section \<open>Reads and writes refine the walk\<close>

lemma ReadWord_walk:
  assumes "coherent m"
  shows "\<exists>m'. ReadWord a m = Inr (walk_read m a, m') \<and> coherent m' \<and> same_store m m'"
proof -
  obtain m' where t: "Translate a m = (page_walk m a, m')" and "coherent m'" and "same_store m m'"
    using Translate_walk [OF assms] by (metis surj_pair)
  then show ?thesis
    using page_walk_in_range [of m a]
    by (cases "page_walk m a") (auto simp: ReadWord_def walk_read_def memcpy_from_def same_store_def)
qed

lemma WriteWord_walk:
  assumes "coherent m"
  shows "\<exists>m'. WriteWord a v m =
            Inr (case page_walk m a of Inl f \<Rightarrow> Inl f | Inr _ \<Rightarrow> Inr (), m') \<and>
          coherent m' \<and> pages m' = pages m \<and>
          bytes m' = (case page_walk m a of
                        Inl _ \<Rightarrow> bytes m
                      | Inr p \<Rightarrow> splice_at (unat p) (le_bytes 4 v) (bytes m))"
proof -
  obtain m' where t: "Translate a m = (page_walk m a, m')" and "coherent m'" and "same_store m m'"
    using Translate_walk [OF assms] by (metis surj_pair)
  then show ?thesis
    using page_walk_in_range [of m a]
    by (cases "page_walk m a") (auto simp: WriteWord_def memcpy_to_def same_store_def coherent_def)
qed

lemma WriteWord_length:
  assumes "coherent m" and "WriteWord a v m = Inr (r, m')"
  shows "length (bytes m') = length (bytes m)"
  using WriteWord_walk [OF assms(1), of a v] assms(2) page_walk_in_range [of m a]
  by (auto split: sum.splits)

lemma page_walk_WriteWord:
  assumes "coherent m" and "WriteWord a v m = Inr (r, m')"
  shows "page_walk m' b = page_walk m b"
proof -
  have "pages m' = pages m"
    using WriteWord_walk [OF assms(1), of a v] assms(2) by auto
  then show ?thesis
    using WriteWord_length [OF assms] by (simp add: page_walk_def check_range_def split: option.splits)
qed

text \<open>Two addresses whose words occupy disjoint bytes of the backing store.\<close>

definition disjoint_words :: "VirtualMemory \<Rightarrow> u32 \<Rightarrow> u32 \<Rightarrow> bool" where
  "disjoint_words m a b \<longleftrightarrow>
     (case (page_walk m a, page_walk m b) of
        (Inr p, Inr q) \<Rightarrow> unat p + 4 \<le> unat q \<or> unat q + 4 \<le> unat p
      | _ \<Rightarrow> True)"

lemma walk_read_WriteWord_same:
  assumes "coherent m" and "WriteWord a v m = Inr (Inr (), m')"
  shows "walk_read m' a = Inr v"
proof -
  obtain p where p: "page_walk m a = Inr p"
    using WriteWord_walk [OF assms(1), of a v] assms(2) by (auto split: sum.splits)
  have "bytes m' = splice_at (unat p) (le_bytes 4 v) (bytes m)"
    using WriteWord_walk [OF assms(1), of a v] assms(2) p by auto
  moreover have "page_walk m' a = Inr p"
    using page_walk_WriteWord [OF assms] p by simp
  ultimately show ?thesis
    using page_walk_in_range [OF p] splice_at_read_same [of "unat p" "le_bytes 4 v" "bytes m"]
    by (simp add: walk_read_def)
qed

lemma walk_read_WriteWord_other:
  assumes "coherent m" and "WriteWord a v m = Inr (r, m')" and "disjoint_words m a b"
  shows "walk_read m' b = walk_read m b"
proof -
  note w = WriteWord_walk [OF assms(1), of a v]
  show ?thesis
  proof (cases "page_walk m a")
    case (Inl f)
    then show ?thesis
      using w assms(2) by (intro walk_read_cong) (auto simp: same_store_def)
  next
    case (Inr p)
    then have b: "bytes m' = splice_at (unat p) (le_bytes 4 v) (bytes m)"
      using w assms(2) by auto
    show ?thesis
      using assms(3) Inr page_walk_in_range [OF Inr] page_walk_in_range [of m b]
      by (auto simp: walk_read_def b page_walk_WriteWord [OF assms(1,2)] disjoint_words_def
          splice_at_read_other split: sum.splits)
  qed
qed

section \<open>The interface the instruction set uses\<close>

text \<open>
  The virtual machine reaches its memory through \<open>ReadWord\<close> and \<open>WriteWord\<close> only. The laws it
  relies on: neither call aborts on a memory that satisfies the invariant, both keep the
  invariant, a read changes no later read, and a write that succeeds changes the word it names
  and no disjoint one, while a write faults exactly where a read does and then changes nothing.
\<close>

locale word_memory =
  fixes inv :: "'m \<Rightarrow> bool"
    and view :: "'m \<Rightarrow> 'a \<Rightarrow> 'f + 'v"
    and apart :: "'m \<Rightarrow> 'a \<Rightarrow> 'a \<Rightarrow> bool"
    and load :: "'a \<Rightarrow> 'm \<Rightarrow> (('f + 'v) \<times> 'm) cpp"
    and store :: "'a \<Rightarrow> 'v \<Rightarrow> 'm \<Rightarrow> (('f + unit) \<times> 'm) cpp"
  assumes load_law: "inv m \<Longrightarrow> \<exists>m'. load a m = Inr (view m a, m') \<and> inv m' \<and> view m' = view m"
    and store_returns: "inv m \<Longrightarrow> \<exists>r m'. store a v m = Inr (r, m') \<and> inv m'"
    and store_fault: "inv m \<Longrightarrow> store a v m = Inr (Inl f, m') \<Longrightarrow> view m a = Inl f \<and> view m' = view m"
    and store_same: "inv m \<Longrightarrow> store a v m = Inr (Inr (), m') \<Longrightarrow> view m' a = Inr v \<and> (\<exists>w. view m a = Inr w)"
    and store_other: "inv m \<Longrightarrow> store a v m = Inr (r, m') \<Longrightarrow> apart m a b \<Longrightarrow> view m' b = view m b"
begin

lemma load_inv: "inv m \<Longrightarrow> load a m = Inr (r, m') \<Longrightarrow> inv m'"
  using load_law [of m a] by auto

lemma store_inv: "inv m \<Longrightarrow> store a v m = Inr (r, m') \<Longrightarrow> inv m'"
  using store_returns [of m a v] by auto

lemma never_aborts: "inv m \<Longrightarrow> returns (load a m)" "inv m \<Longrightarrow> returns (store a v m)"
  using load_law [of m a] store_returns [of m a v] by (auto simp: returns_iff)

text \<open>A word that was stored is loaded again, also after reads in between.\<close>

lemma store_load:
  assumes "inv m" and "store a v m = Inr (Inr (), m1)"
  shows "\<exists>m2. load a m1 = Inr (Inr v, m2)"
  using load_law [of m1 a] store_inv [OF assms] store_same [OF assms] by auto

lemma store_load_load:
  assumes "inv m" and "store a v m = Inr (Inr (), m1)" and "load b m1 = Inr (r, m2)"
  shows "\<exists>m3. load a m2 = Inr (Inr v, m3)"
  using load_law [of m1 b] load_law [of m2 a] store_inv [OF assms(1,2)] store_same [OF assms(1,2)]
    assms(3) by auto

text \<open>Stores to words that are apart do not disturb each other.\<close>

lemma store_store_load:
  assumes "inv m" and "store a v m = Inr (Inr (), m1)" and "store b w m1 = Inr (r, m2)"
    and "apart m1 b a"
  shows "\<exists>m3. load a m2 = Inr (Inr v, m3)"
proof -
  have m1: "inv m1"
    by (rule store_inv [OF assms(1,2)])
  have "view m2 a = Inr v"
    using store_other [OF m1 assms(3,4)] store_same [OF assms(1,2)] by simp
  then show ?thesis
    using load_law [of m2 a] store_inv [OF m1 assms(3)] by auto
qed

text \<open>A load and a store of the same address fault alike.\<close>

lemma fault_alike:
  assumes "inv m" and "load a m = Inr (r, m1)" and "store a v m = Inr (s, m2)"
  shows "(\<exists>f. r = Inl f \<and> s = Inl f) \<or> (\<exists>w. r = Inr w \<and> s = Inr ())"
proof (cases s)
  case (Inl f)
  then show ?thesis
    using load_law [of m a] store_fault [of m a v f m2] assms by auto
next
  case (Inr u)
  then show ?thesis
    using load_law [of m a] store_same [of m a v m2] assms by auto
qed

end

interpretation paged: word_memory coherent walk_read disjoint_words ReadWord WriteWord
proof
  show "\<exists>m'. ReadWord a m = Inr (walk_read m a, m') \<and> coherent m' \<and> walk_read m' = walk_read m"
    if "coherent m" for m a
    using ReadWord_walk [OF that, of a] walk_read_cong by blast
  show "\<exists>r m'. WriteWord a v m = Inr (r, m') \<and> coherent m'" if "coherent m" for m a v
    using WriteWord_walk [OF that, of a v] by auto
  show "walk_read m a = Inl f \<and> walk_read m' = walk_read m"
    if c: "coherent m" and w: "WriteWord a v m = Inr (Inl f, m')" for m a v f m'
  proof -
    have "page_walk m a = Inl f" and "same_store m m'"
      using WriteWord_walk [OF c, of a v] w by (auto simp: same_store_def split: sum.splits)
    then show ?thesis
      using walk_read_cong by (auto simp: walk_read_def)
  qed
  show "walk_read m' a = Inr v \<and> (\<exists>w. walk_read m a = Inr w)"
    if c: "coherent m" and w: "WriteWord a v m = Inr (Inr (), m')" for m a v m'
    using walk_read_WriteWord_same [OF c w] WriteWord_walk [OF c, of a v] w
    by (auto simp: walk_read_def split: sum.splits)
  show "walk_read m' b = walk_read m b"
    if "coherent m" "WriteWord a v m = Inr (r, m')" "disjoint_words m a b" for m a v r m' b
    using that by (rule walk_read_WriteWord_other)
qed

declare paged.load_inv [inv_intros] paged.store_inv [inv_intros]

section \<open>The memory of a new virtual machine\<close>

lemma identity_pages_upto:
  assumes "n \<le> 2 ^ 32"
  shows "foldl (\<lambda>m i. m(of_nat i \<mapsto> of_nat i)) Map.empty [0..<n] v =
           (if unat (v :: u32) < n then Some v else None)"
  using assms
proof (induction n)
  case 0
  show ?case by simp
next
  case (Suc n)
  then have "unat (of_nat n :: u32) = n"
    by (simp add: unat_of_nat)
  then have "v = of_nat n \<longleftrightarrow> unat v = n"
    using word_unat_eq_iff [of v "of_nat n"] by simp
  then show ?case
    using Suc by auto
qed

lemma identity_pages_iff: "identity_pages c v = (if v < c then Some v else None)"
  using identity_pages_upto [of "unat c" v] unsigned_less [of c, where ?'a = nat]
  by (simp add: identity_pages_def word_less_nat_alt)

lemma page_split: "a div kPageSize * kPageSize + a mod kPageSize = a"
  by (rule div_mult_mod_eq)

text \<open>Under an identity mapping a virtual address is its own physical address.\<close>

lemma page_walk_identity:
  "pages m = identity_pages c \<Longrightarrow>
   page_walk m a = (if a div kPageSize < c then check_range m a else Inl page_fault)"
  by (simp add: page_walk_def identity_pages_iff page_split)

lemma unat_page: "unat (a div kPageSize) = unat a div 4096"
  by (simp add: kPageSize_def unat_div)

lemma unat_page_count:
  assumes "unat (n :: size_t) < 2 ^ 43"
  shows "unat (ucast ((n + ucast kPageSize - 1) div ucast kPageSize) :: u32) = (unat n + 4095) div 4096"
proof -
  have k: "n + ucast kPageSize - 1 = n + 4095"
    by (simp add: kPageSize_def)
  have "unat (n + 4095) = unat n + 4095"
    using assms by (simp add: unat_word_ariths)
  then have "unat ((n + ucast kPageSize - 1) div ucast kPageSize) = (unat n + 4095) div 4096"
    unfolding k by (simp add: kPageSize_def unat_div)
  then show ?thesis
    using assms by (simp add: unsigned_ucast_eq take_bit_nat_eq_self)
qed

text \<open>
  A new memory of \<open>n\<close> bytes reads 0 wherever the word fits, faults out of range in the rest of
  the last page, and takes a page fault beyond.
\<close>

lemma walk_read_new:
  assumes "unat n < 2 ^ 43"
  shows "walk_read (VirtualMemory_new n) a =
          (if unat a + 4 \<le> unat n then Inr 0
           else if unat a div 4096 < (unat n + 4095) div 4096 then Inl range_fault
           else Inl page_fault)"
proof -
  define m where "m = VirtualMemory_new n"
  have b: "bytes m = replicate (unat n) 0"
    and "pages m = identity_pages (ucast ((n + ucast kPageSize - 1) div ucast kPageSize))"
    by (simp_all add: m_def VirtualMemory_new_def Let_def)
  then have walk: "page_walk m a =
      (if unat a div 4096 < (unat n + 4095) div 4096 then check_range m a else Inl page_fault)"
    using unat_page_count [OF assms]
    by (simp add: page_walk_identity word_less_nat_alt unat_page)
  have zero: "of_le_bytes (replicate k 0) = (0 :: i32)" for k
    by (induction k) simp_all
  have "unat a + 4 \<le> unat n \<Longrightarrow> unat a div 4096 < (unat n + 4095) div 4096"
    by arith
  then show ?thesis
    unfolding m_def [symmetric]
    by (auto simp: walk_read_def walk check_range_def b zero)
qed

end
