(* ===== verification/Virtual_Machine.thy ===== *)
theory Virtual_Machine
  imports Instructions Virtual_Memory
begin

text \<open>
  One guest: \<open>include/vm/virtual_machine.hpp\<close> and \<open>src/vm/virtual_machine.cpp\<close>. The private
  members are the fields of a record (\<open>cpu_\<close> is \<open>vcpu\<close>); the text the guest's dump instruction
  writes to \<open>std::cout\<close> is threaded beside it.
\<close>

section \<open>The code\<close>

record VirtualMachine =
  config :: VmConfig
  program :: "Instruction list"
  vcpu :: CpuState
  memory :: VirtualMemory
  status :: VmStatus
  lastFault :: VmFault
  pendingMigrationTarget :: "string option"

definition VirtualMachine_new :: "VmConfig \<Rightarrow> Instruction list \<Rightarrow> VirtualMachine" where
  "VirtualMachine_new c p =
     \<lparr>config = c, program = p, vcpu = CpuState_init,
      memory = VirtualMemory_new (configMemoryBytes c), status = Ready,
      lastFault = VmFault_init, pendingMigrationTarget = None\<rparr>"

text \<open>
  The two overloads of \<open>Reg\<close>: the index is converted to \<open>std::size_t\<close> and not checked, so a
  negative or too large one is undefined behaviour.
\<close>

definition valid_reg :: "int \<Rightarrow> VirtualMachine \<Rightarrow> bool" where
  "valid_reg idx vm \<longleftrightarrow> 0 \<le> idx \<and> nat idx < length (regs (vcpu vm))"

definition Reg :: "int \<Rightarrow> VirtualMachine \<Rightarrow> i32 cpp" where
  "Reg idx vm = (if valid_reg idx vm then Inr (regs (vcpu vm) ! nat idx) else Inl UB_Bounds)"

definition set_Reg :: "int \<Rightarrow> i32 \<Rightarrow> VirtualMachine \<Rightarrow> VirtualMachine cpp" where
  "set_Reg idx v vm =
     (if valid_reg idx vm
      then Inr (vm\<lparr>vcpu := (vcpu vm)\<lparr>regs := (regs (vcpu vm))[nat idx := v]\<rparr>\<rparr>)
      else Inl UB_Bounds)"

type_synonym step_result = "nat \<times> VirtualMachine \<times> string"

text \<open>The tail of \<open>ExecuteOne\<close>, reached by the branches that \<open>break\<close>.\<close>

definition retire :: "VirtualMachine \<Rightarrow> string \<Rightarrow> step_result cpp" where
  "retire vm out =
     Inr (1, vm\<lparr>vcpu := (vcpu vm)\<lparr>pc := pc (vcpu vm) + 1\<rparr>, status := Running\<rparr>, out)"

definition fault_with :: "VmFault \<Rightarrow> VirtualMachine \<Rightarrow> string \<Rightarrow> step_result cpp" where
  "fault_with f vm out = Inr (0, vm\<lparr>lastFault := f, status := Faulted\<rparr>, out)"

definition binary_op ::
  "(i32 \<Rightarrow> i32 \<Rightarrow> i32 cpp) \<Rightarrow> Instruction \<Rightarrow> VirtualMachine \<Rightarrow> string \<Rightarrow> step_result cpp" where
  "binary_op f inst vm out =
     bind_cpp (Reg (rs inst) vm) (\<lambda>a. bind_cpp (Reg (rt inst) vm) (\<lambda>b.
     bind_cpp (f a b) (\<lambda>c. bind_cpp (set_Reg (rd inst) c vm) (\<lambda>vm'. retire vm' out))))"

definition dump_text :: "VirtualMachine \<Rightarrow> string" where
  "dump_text vm =
     ''[VM '' @ name (config vm) @ ''] PC='' @ show_nat (unat (pc (vcpu vm)))
       @ '' R1='' @ show_int (sint (regs (vcpu vm) ! 1))
       @ '' HI='' @ show_int (sint (hi (vcpu vm))) @ '' LO='' @ show_int (sint (lo (vcpu vm)))
       @ ''\<newline>''"

definition ExecuteOne :: "Instruction \<Rightarrow> VirtualMachine \<Rightarrow> string \<Rightarrow> step_result cpp" where
  "ExecuteOne inst vm out =
    (case opcode inst of
       Li \<Rightarrow> bind_cpp (set_Reg (rd inst) (imm inst) vm) (\<lambda>vm'. retire vm' out)
     | Add \<Rightarrow> binary_op add32 inst vm out
     | Addi \<Rightarrow>
         bind_cpp (Reg (rs inst) vm) (\<lambda>a. bind_cpp (add32 a (imm inst)) (\<lambda>c.
         bind_cpp (set_Reg (rd inst) c vm) (\<lambda>vm'. retire vm' out)))
     | Sub \<Rightarrow> binary_op sub32 inst vm out
     | Mul \<Rightarrow> binary_op mul32 inst vm out
     | Div \<Rightarrow>
         bind_cpp (Reg (rt inst) vm) (\<lambda>b.
         if b = 0 then fault_with \<lparr>fault_type = DivideByZero, message = ''division by zero''\<rparr> vm out
         else bind_cpp (Reg (rs inst) vm) (\<lambda>a.
              bind_cpp (div32 a b) (\<lambda>q. bind_cpp (rem32 a b) (\<lambda>r.
              retire (vm\<lparr>vcpu := (vcpu vm)\<lparr>lo := q, hi := r\<rparr>\<rparr>) out))))
     | Lw \<Rightarrow>
         bind_cpp (ReadWord (imm inst) (memory vm)) (\<lambda>(r, mem).
         case r of
           Inl f \<Rightarrow> fault_with f (vm\<lparr>memory := mem\<rparr>) out
         | Inr v \<Rightarrow> bind_cpp (set_Reg (rd inst) v (vm\<lparr>memory := mem\<rparr>)) (\<lambda>vm'. retire vm' out))
     | Sw \<Rightarrow>
         bind_cpp (Reg (rs inst) vm) (\<lambda>v.
         bind_cpp (WriteWord (imm inst) v (memory vm)) (\<lambda>(r, mem).
         case r of
           Inl f \<Rightarrow> fault_with f (vm\<lparr>memory := mem\<rparr>) out
         | Inr _ \<Rightarrow> retire (vm\<lparr>memory := mem\<rparr>) out))
     | DumpProcessorState \<Rightarrow> retire vm (out @ dump_text vm)
     | Snapshot \<Rightarrow> retire vm out
     | Migrate \<Rightarrow> Inr (0, vm\<lparr>pendingMigrationTarget := Some (label inst), status := Blocked\<rparr>, out)
     | Halt \<Rightarrow> Inr (0, vm\<lparr>status := Halted\<rparr>, out)
     | _ \<Rightarrow> fault_with \<lparr>fault_type = IllegalOpcode, message = ''illegal opcode''\<rparr> vm out)"

abbreviation pc_nat :: "VirtualMachine \<Rightarrow> nat" where
  "pc_nat vm \<equiv> unat (pc (vcpu vm))"

text \<open>The loop of \<open>RunForSlice\<close>.\<close>

function run_loop :: "nat \<Rightarrow> nat \<Rightarrow> VirtualMachine \<Rightarrow> string \<Rightarrow> step_result cpp" where
  "run_loop maxInstructions retired vm out =
     (if retired < maxInstructions \<and> pc_nat vm < length (program vm)
      then bind_cpp (ExecuteOne (program vm ! pc_nat vm) vm out) (\<lambda>(advanced, vm', out').
           if advanced = 0 then Inr (retired, vm', out')
           else run_loop maxInstructions (retired + advanced) vm' out')
      else Inr (retired, vm, out))"
  by pat_completeness auto
termination
  by (relation "measure (\<lambda>(m, retired, vm, out). m - retired)") auto

declare run_loop.simps [simp del]

text \<open>What \<open>RunForSlice\<close> does to the status after its loop.\<close>

definition settle :: "VirtualMachine \<Rightarrow> VirtualMachine" where
  "settle vm =
     (if pc_nat vm \<ge> length (program vm) then vm\<lparr>status := Halted\<rparr>
      else if status vm = Running then vm\<lparr>status := Ready\<rparr> else vm)"

definition RunForSlice :: "size_t \<Rightarrow> VirtualMachine \<Rightarrow> string \<Rightarrow> step_result cpp" where
  "RunForSlice maxInstructions vm out =
     (if status vm = Halted \<or> status vm = Faulted then Inr (0, vm, out)
      else bind_cpp (run_loop (unat maxInstructions) 0 (vm\<lparr>status := Running\<rparr>) out)
             (\<lambda>(retired, vm', out'). Inr (retired, settle vm', out')))"

definition vm_Snapshot :: "VirtualMachine \<Rightarrow> VmSnapshot" where
  "vm_Snapshot vm =
     \<lparr>vmName = name (config vm), cpu = vcpu vm, pageTable = pages (memory vm),
      memoryBytes = bytes (memory vm)\<rparr>"

definition Restore :: "VmSnapshot \<Rightarrow> VirtualMachine \<Rightarrow> VirtualMachine" where
  "Restore snapshot vm =
     vm\<lparr>vcpu := cpu snapshot,
        memory := RestorePageTable (pageTable snapshot) ((memory vm)\<lparr>bytes := memoryBytes snapshot\<rparr>),
        status := Ready\<rparr>"

definition ClearMigrationIntent :: "VirtualMachine \<Rightarrow> VirtualMachine" where
  "ClearMigrationIntent vm = vm\<lparr>pendingMigrationTarget := None\<rparr>"

section \<open>One instruction\<close>

lemmas ExecuteOne_unfold =
  ExecuteOne_def binary_op_def retire_def fault_with_def set_Reg_def Reg_def

lemma set_Reg_Inr:
  "set_Reg i v vm = Inr vm' \<longleftrightarrow>
     valid_reg i vm \<and> vm' = vm\<lparr>vcpu := (vcpu vm)\<lparr>regs := (regs (vcpu vm))[nat i := v]\<rparr>\<rparr>"
  by (auto simp: set_Reg_def)

lemma Reg_Inr: "Reg i vm = Inr v \<longleftrightarrow> valid_reg i vm \<and> v = regs (vcpu vm) ! nat i"
  by (auto simp: Reg_def)

lemma retire_Inr:
  "retire vm out = Inr (k, vm', out') \<longleftrightarrow>
     k = 1 \<and> out' = out \<and>
     vm' = vm\<lparr>vcpu := (vcpu vm)\<lparr>pc := pc (vcpu vm) + 1\<rparr>, status := Running\<rparr>"
  by (auto simp: retire_def)

lemma fault_with_Inr:
  "fault_with f vm out = Inr (k, vm', out') \<longleftrightarrow>
     k = 0 \<and> out' = out \<and> vm' = vm\<lparr>lastFault := f, status := Faulted\<rparr>"
  by (auto simp: fault_with_def)

lemmas step_Inr = set_Reg_Inr Reg_Inr retire_Inr fault_with_Inr outcome_simps

text \<open>
  An instruction that returns either retires (the program counter moves by one and the machine
  is running) or stops the machine in one of three states without touching the processor.
  The program and the configuration never change.
\<close>

lemma ExecuteOne_outcome:
  assumes "ExecuteOne i vm out = Inr (k, vm', out')"
  shows "config vm' = config vm" and "program vm' = program vm"
    and "(k = 1 \<and> status vm' = Running \<and> pc (vcpu vm') = pc (vcpu vm) + 1) \<or>
         (k = 0 \<and> status vm' \<in> {Blocked, Halted, Faulted} \<and> vcpu vm' = vcpu vm)"
proof -
  have "config vm' = config vm \<and> program vm' = program vm \<and>
     ((k = 1 \<and> status vm' = Running \<and> pc (vcpu vm') = pc (vcpu vm) + 1) \<or>
      (k = 0 \<and> status vm' \<in> {Blocked, Halted, Faulted} \<and> vcpu vm' = vcpu vm))"
    using assms
    by (cases "opcode i")
      (auto simp: ExecuteOne_def binary_op_def step_Inr)
  then show "config vm' = config vm" and "program vm' = program vm"
    and "(k = 1 \<and> status vm' = Running \<and> pc (vcpu vm') = pc (vcpu vm) + 1) \<or>
         (k = 0 \<and> status vm' \<in> {Blocked, Halted, Faulted} \<and> vcpu vm' = vcpu vm)"
    by simp_all
qed

text \<open>Well-formed machines: a full register file and a coherent translation cache.\<close>

definition wf_vm :: "VirtualMachine \<Rightarrow> bool" where
  "wf_vm vm \<longleftrightarrow> wf_cpu (vcpu vm) \<and> coherent (memory vm)"

lemma wf_vm_new [inv_intros]: "wf_vm (VirtualMachine_new c p)"
  by (simp add: wf_vm_def VirtualMachine_new_def coherent_new)

lemma wf_vm_Restore [inv_intros]: "wf_cpu (cpu s) \<Longrightarrow> wf_vm (Restore s vm)"
  by (simp add: wf_vm_def Restore_def coherent_RestorePageTable)

lemma wf_vm_status [simp]: "wf_vm (vm\<lparr>status := s\<rparr>) \<longleftrightarrow> wf_vm vm"
  by (simp add: wf_vm_def)

lemma wf_vm_ExecuteOne [inv_intros]:
  assumes "wf_vm vm" and "ExecuteOne i vm out = Inr (k, vm', out')"
  shows "wf_vm vm'"
  using assms
  by (cases "opcode i")
    (auto simp: ExecuteOne_def binary_op_def step_Inr wf_vm_def wf_cpu_def
      intro: paged.load_inv paged.store_inv)

section \<open>A time slice\<close>

lemma run_loop_stop:
  "\<not> (retired < m \<and> pc_nat vm < length (program vm)) \<Longrightarrow> run_loop m retired vm out = Inr (retired, vm, out)"
  by (subst run_loop.simps) auto

lemma run_loop_step:
  "retired < m \<Longrightarrow> pc_nat vm < length (program vm) \<Longrightarrow>
   run_loop m retired vm out =
     bind_cpp (ExecuteOne (program vm ! pc_nat vm) vm out) (\<lambda>(advanced, vm', out').
       if advanced = 0 then Inr (retired, vm', out')
       else run_loop m (retired + advanced) vm' out')"
  by (subst run_loop.simps) simp

text \<open>
  Induction over a slice that returns: the loop stops at its bound or at the end of the program,
  an instruction stops it, or an instruction retires and the rest of the slice follows.
\<close>

lemma run_loop_cases [consumes 1, case_names stop zero step]:
  assumes "run_loop m k vm out = Inr r"
  obtains "\<not> (k < m \<and> pc_nat vm < length (program vm))" and "r = (k, vm, out)"
  | vm1 out1 where "k < m" and "pc_nat vm < length (program vm)"
      and "ExecuteOne (program vm ! pc_nat vm) vm out = Inr (0, vm1, out1)" and "r = (k, vm1, out1)"
  | vm1 out1 where "k < m" and "pc_nat vm < length (program vm)"
      and "ExecuteOne (program vm ! pc_nat vm) vm out = Inr (1, vm1, out1)"
      and "run_loop m (Suc k) vm1 out1 = Inr r"
proof (cases "k < m \<and> pc_nat vm < length (program vm)")
  case False
  then show thesis
    using assms that(1) by (simp add: run_loop_stop)
next
  case True
  with assms have "\<exists>j vm1 out1. ExecuteOne (program vm ! pc_nat vm) vm out = Inr (j, vm1, out1) \<and>
      (if j = 0 then Inr (k, vm1, out1) else run_loop m (k + j) vm1 out1) = Inr r"
    by (auto simp: run_loop_step bind_cpp_eq_Inr)
  then obtain j vm1 out1 where e: "ExecuteOne (program vm ! pc_nat vm) vm out = Inr (j, vm1, out1)"
    and r: "(if j = 0 then Inr (k, vm1, out1) else run_loop m (k + j) vm1 out1) = Inr r"
    by blast
  from ExecuteOne_outcome(3) [OF e] consider "j = 1" | "j = 0" by auto
  then show thesis
    using True e r that(2) [of vm1 out1] that(3) [of vm1 out1] by cases auto
qed

lemma run_loop_induct [consumes 1, case_names stop zero step]:
  assumes "run_loop m k vm out = Inr r"
    and stop: "\<And>k vm out. \<not> (k < m \<and> pc_nat vm < length (program vm)) \<Longrightarrow> Q k vm out (k, vm, out)"
    and zero: "\<And>k vm out vm1 out1. k < m \<Longrightarrow> pc_nat vm < length (program vm) \<Longrightarrow>
      ExecuteOne (program vm ! pc_nat vm) vm out = Inr (0, vm1, out1) \<Longrightarrow> Q k vm out (k, vm1, out1)"
    and step: "\<And>k vm out vm1 out1 r. k < m \<Longrightarrow> pc_nat vm < length (program vm) \<Longrightarrow>
      ExecuteOne (program vm ! pc_nat vm) vm out = Inr (1, vm1, out1) \<Longrightarrow>
      run_loop m (Suc k) vm1 out1 = Inr r \<Longrightarrow> Q (Suc k) vm1 out1 r \<Longrightarrow> Q k vm out r"
  shows "Q k vm out r"
  using assms(1)
proof (induction "m - k" arbitrary: k vm out rule: less_induct)
  case less
  from less.prems show ?case
  proof (cases rule: run_loop_cases)
    case stop
    then show ?thesis using assms(2) by simp
  next
    case (zero vm1 out1)
    then show ?thesis using assms(3) by simp
  next
    case (step vm1 out1)
    then show ?thesis using assms(4) less.hyps [of "Suc k"] by simp
  qed
qed

text \<open>Whatever every instruction keeps, the loop keeps.\<close>

lemma run_loop_invariant:
  assumes "run_loop m k vm out = Inr (k', vm', out')" and "P vm"
    and "\<And>i vm out j vm' out'. P vm \<Longrightarrow> ExecuteOne i vm out = Inr (j, vm', out') \<Longrightarrow> P vm'"
  shows "P vm'"
proof -
  have "P vm \<longrightarrow> P (fst (snd (k', vm', out')))"
    using assms(1)
  proof (induction rule: run_loop_induct)
    case (zero k vm out vm1 out1)
    then show ?case using assms(3) [OF _ zero(3)] by simp
  next
    case (step k vm out vm1 out1 r)
    then show ?case using assms(3) [OF _ step(3)] by simp
  qed simp
  with assms(2) show ?thesis by simp
qed

lemma run_loop_frame:
  assumes "run_loop m k vm out = Inr (k', vm', out')"
  shows "config vm' = config vm" and "program vm' = program vm"
proof -
  have "config vm' = config vm \<and> program vm' = program vm"
    by (rule run_loop_invariant [OF assms]) (simp_all add: ExecuteOne_outcome(1,2))
  then show "config vm' = config vm" and "program vm' = program vm" by simp_all
qed

text \<open>
  The loop retires what it counts: the program counter moves by the count, which stays within
  the bound; it ends at the bound, at the end of the program, or in a stopped machine.
\<close>

lemma unat_pc_Suc:
  assumes "pc_nat vm < length (program vm)" and "length (program vm) < 2 ^ 64"
  shows "unat (pc (vcpu vm) + 1) = Suc (pc_nat vm)"
  using assms by (simp add: unat_word_ariths)

lemma run_loop_progress:
  assumes "run_loop m k vm out = Inr (k', vm', out')"
    and "length (program vm) < 2 ^ 64" and "pc_nat vm \<le> length (program vm)" and "k \<le> m"
    and "status vm = Running"
  shows "k \<le> k' \<and> k' \<le> m \<and> pc_nat vm' + k = pc_nat vm + k' \<and> pc_nat vm' \<le> length (program vm) \<and>
         (status vm' = Running \<longrightarrow> k' = m \<or> pc_nat vm' = length (program vm)) \<and>
         (status vm' \<in> {Running, Blocked, Halted, Faulted})"
proof -
  have "length (program vm) < 2 ^ 64 \<longrightarrow> pc_nat vm \<le> length (program vm) \<longrightarrow> k \<le> m \<longrightarrow>
    status vm = Running \<longrightarrow>
    (case (k', vm', out') of (k', vm', out') \<Rightarrow>
      k \<le> k' \<and> k' \<le> m \<and> pc_nat vm' + k = pc_nat vm + k' \<and> pc_nat vm' \<le> length (program vm) \<and>
      (status vm' = Running \<longrightarrow> k' = m \<or> pc_nat vm' = length (program vm)) \<and>
      status vm' \<in> {Running, Blocked, Halted, Faulted})"
    using assms(1)
  proof (induction rule: run_loop_induct)
    case (stop k vm out)
    then show ?case by auto
  next
    case (zero k vm out vm1 out1)
    then show ?case
      using ExecuteOne_outcome [OF zero(3)] by auto
  next
    case (step k vm out vm1 out1 r)
    then show ?case
      using ExecuteOne_outcome [OF step(3)] unat_pc_Suc [of vm] by (auto split: prod.splits)
  qed
  with assms show ?thesis by simp
qed

text \<open>
  The machines the hypervisor holds: well formed, with the program counter in the program or just
  behind it, and a program that fits the address space of the host.
\<close>

definition ok_vm :: "VirtualMachine \<Rightarrow> bool" where
  "ok_vm vm \<longleftrightarrow> wf_vm vm \<and> length (program vm) < 2 ^ 64 \<and> pc_nat vm \<le> length (program vm)"

lemma ok_vm_new [inv_intros]: "length p < 2 ^ 64 \<Longrightarrow> ok_vm (VirtualMachine_new c p)"
  using wf_vm_new [of c p] by (simp add: ok_vm_def) (simp add: VirtualMachine_new_def CpuState_init_def)

lemma ok_vm_ClearMigrationIntent [simp]: "ok_vm (ClearMigrationIntent vm) \<longleftrightarrow> ok_vm vm"
  by (simp add: ok_vm_def wf_vm_def ClearMigrationIntent_def)

lemma settle_fields [simp]:
  "config (settle vm) = config vm" "program (settle vm) = program vm" "vcpu (settle vm) = vcpu vm"
  "memory (settle vm) = memory vm" "lastFault (settle vm) = lastFault vm"
  "pendingMigrationTarget (settle vm) = pendingMigrationTarget vm"
  by (simp_all add: settle_def)

lemma RunForSlice_done [simp]: "is_done (status vm) \<Longrightarrow> RunForSlice n vm out = Inr (0, vm, out)"
  by (simp add: RunForSlice_def is_done_def)

lemma RunForSlice_Inr:
  assumes "\<not> is_done (status vm)"
  shows "RunForSlice n vm out = Inr (k, vm', out') \<longleftrightarrow>
    (\<exists>vm1. run_loop (unat n) 0 (vm\<lparr>status := Running\<rparr>) out = Inr (k, vm1, out') \<and> vm' = settle vm1)"
  using assms by (auto simp: RunForSlice_def is_done_def bind_cpp_eq_Inr)

lemma RunForSlice_frame:
  assumes "RunForSlice n vm out = Inr (k, vm', out')"
  shows "config vm' = config vm" and "program vm' = program vm"
proof -
  have "config vm' = config vm \<and> program vm' = program vm"
  proof (cases "is_done (status vm)")
    case False
    with assms obtain vm1 where "run_loop (unat n) 0 (vm\<lparr>status := Running\<rparr>) out = Inr (k, vm1, out')"
      and "vm' = settle vm1" by (auto simp: RunForSlice_Inr)
    then show ?thesis using run_loop_frame by fastforce
  qed (use assms in simp)
  then show "config vm' = config vm" and "program vm' = program vm" by simp_all
qed

lemma wf_vm_RunForSlice:
  assumes "wf_vm vm" and "RunForSlice n vm out = Inr (k, vm', out')"
  shows "wf_vm vm'"
proof (cases "is_done (status vm)")
  case False
  with assms(2) obtain vm1 where r: "run_loop (unat n) 0 (vm\<lparr>status := Running\<rparr>) out = Inr (k, vm1, out')"
    and v: "vm' = settle vm1" by (auto simp: RunForSlice_Inr)
  have "wf_vm vm1"
    by (rule run_loop_invariant [OF r]) (use assms(1) wf_vm_ExecuteOne in auto)
  then show ?thesis by (simp add: v wf_vm_def)
qed (use assms in simp)

text \<open>The account of one slice of a machine that is not done.\<close>

lemma RunForSlice_account:
  assumes "ok_vm vm" and "\<not> is_done (status vm)" and "RunForSlice n vm out = Inr (k, vm', out')"
  shows "k \<le> unat n \<and> pc_nat vm' = pc_nat vm + k \<and> pc_nat vm' \<le> length (program vm) \<and>
    status vm' \<noteq> Running \<and> (status vm' = Ready \<longrightarrow> k = unat n \<and> pc_nat vm' < length (program vm))"
proof -
  obtain vm1 where r: "run_loop (unat n) 0 (vm\<lparr>status := Running\<rparr>) out = Inr (k, vm1, out')"
    and v: "vm' = settle vm1"
    using assms(2,3) by (auto simp: RunForSlice_Inr)
  have len: "length (program vm) < 2 ^ 64" and pc: "pc_nat vm \<le> length (program vm)"
    using assms(1) by (simp_all add: ok_vm_def)
  have "k \<le> unat n \<and> pc_nat vm1 = pc_nat vm + k \<and> pc_nat vm1 \<le> length (program vm) \<and>
      (status vm1 = Running \<longrightarrow> k = unat n \<or> pc_nat vm1 = length (program vm)) \<and>
      status vm1 \<in> {Running, Blocked, Halted, Faulted}"
    using run_loop_progress [OF r] len pc by auto
  moreover have "program vm1 = program vm"
    using run_loop_frame(2) [OF r] by simp
  ultimately show ?thesis
    by (auto simp: v settle_def)
qed

lemma ok_vm_RunForSlice [inv_intros]:
  assumes "ok_vm vm" and "RunForSlice n vm out = Inr (k, vm', out')"
  shows "ok_vm vm'"
proof (cases "is_done (status vm)")
  case True
  with assms show ?thesis by simp
next
  case False
  then show ?thesis
    using assms RunForSlice_account [OF assms(1) False assms(2)] RunForSlice_frame(2) [OF assms(2)]
      wf_vm_RunForSlice [OF _ assms(2)] by (simp add: ok_vm_def)
qed

section \<open>Slicing is transparent to the guest\<close>

lemma run_loop_prefix:
  assumes "run_loop m k vm out = Inr (k', vm', out')" and "status vm' = Running" and "status vm = Running"
  shows "run_loop (m + n) k vm out = run_loop (m + n) k' vm' out'"
proof -
  have "status (fst (snd (k', vm', out'))) = Running \<longrightarrow>
     (case (k', vm', out') of (k', vm', out') \<Rightarrow>
        run_loop (m + n) k vm out = run_loop (m + n) k' vm' out')"
    using assms(1)
  proof (induction rule: run_loop_induct)
    case (zero k vm out vm1 out1)
    then show ?case using ExecuteOne_outcome(3) [OF zero(3)] by auto
  next
    case (step k vm out vm1 out1 r)
    then show ?case by (simp add: run_loop_step)
  qed simp
  with assms(2) show ?thesis by simp
qed

definition add_retired :: "nat \<Rightarrow> step_result \<Rightarrow> step_result" where
  "add_retired d r = (fst r + d, snd r)"

lemma run_loop_shift:
  "run_loop (m + d) (k + d) vm out = bind_cpp (run_loop m k vm out) (\<lambda>r. Inr (add_retired d r))"
proof (induction m k vm out rule: run_loop.induct)
  case (1 m k vm out)
  show ?case
  proof (cases "k < m \<and> pc_nat vm < length (program vm)")
    case True
    then show ?thesis
      using "1.IH" [OF True]
      by (cases "ExecuteOne (program vm ! pc_nat vm) vm out")
        (auto simp: run_loop_step add_retired_def ac_simps)
  next
    case False
    then show ?thesis by (simp add: run_loop_stop add_retired_def)
  qed
qed

lemma RunForSlice_compose:
  assumes "ok_vm vm" and "RunForSlice a vm out = Inr (k, vm1, out1)" and "status vm1 = Ready"
    and "unat a + unat b < 2 ^ 64"
  shows "RunForSlice (a + b) vm out = bind_cpp (RunForSlice b vm1 out1) (\<lambda>r. Inr (add_retired k r))"
proof -
  have nd: "\<not> is_done (status vm)"
    using assms(2,3) by auto
  then obtain w where r: "run_loop (unat a) 0 (vm\<lparr>status := Running\<rparr>) out = Inr (k, w, out1)"
    and v: "vm1 = settle w"
    using assms(2) by (auto simp: RunForSlice_Inr)
  have k: "k = unat a"
    using RunForSlice_account [OF assms(1) nd assms(2)] assms(3) by simp
  have "status w \<in> {Running, Blocked, Halted, Faulted}"
    using run_loop_progress [OF r] assms(1) by (simp add: ok_vm_def)
  then have w: "status w = Running" "vm1\<lparr>status := Running\<rparr> = w"
    using assms(3) by (auto simp: v settle_def split: if_splits)
  have "unat (a + b) = unat b + unat a"
    using assms(4) by (simp add: unat_word_ariths)
  moreover have "run_loop (unat b + unat a) 0 (vm\<lparr>status := Running\<rparr>) out
      = bind_cpp (run_loop (unat b) 0 w out1) (\<lambda>r. Inr (add_retired (unat a) r))"
    using run_loop_prefix [OF r w(1), of "unat b"] run_loop_shift [of "unat b" "unat a" 0 w out1]
    by (simp add: k add.commute)
  ultimately show ?thesis
    using nd assms(3) w(2)
    by (cases "run_loop (unat b) 0 w out1") (auto simp: RunForSlice_def is_done_def k add_retired_def)
qed

section \<open>Checkpoint and restart\<close>

text \<open>
  Two machines a guest cannot tell apart: they agree on everything but the translation cache, the
  record of the last fault and the pending migration target, none of which an instruction reads.
\<close>

definition sim :: "VirtualMachine \<Rightarrow> VirtualMachine \<Rightarrow> bool" where
  "sim a b \<longleftrightarrow>
     config a = config b \<and> program a = program b \<and> vcpu a = vcpu b \<and> status a = status b \<and>
     same_store (memory a) (memory b) \<and> wf_vm a \<and> wf_vm b"

abbreviation same_result :: "step_result cpp \<Rightarrow> step_result cpp \<Rightarrow> bool" where
  "same_result \<equiv> rel_sum (=) (rel_prod (=) (rel_prod sim (=)))"

lemma sim_Reg: "sim a b \<Longrightarrow> Reg i a = Reg i b"
  by (simp add: sim_def Reg_def valid_reg_def)

lemma sim_set_Reg: "sim a b \<Longrightarrow> rel_sum (=) sim (set_Reg i v a) (set_Reg i v b)"
  by (auto simp: sim_def set_Reg_def valid_reg_def wf_vm_def wf_cpu_def)

lemma sim_retire: "sim a b \<Longrightarrow> same_result (retire a out) (retire b out)"
  by (auto simp: sim_def retire_def wf_vm_def wf_cpu_def)

lemma sim_fault_with: "sim a b \<Longrightarrow> same_result (fault_with f a out) (fault_with f b out)"
  by (auto simp: sim_def fault_with_def wf_vm_def wf_cpu_def)

lemma sim_set_retire:
  "sim a b \<Longrightarrow> same_result (bind_cpp (set_Reg i v a) (\<lambda>m. retire m out))
                          (bind_cpp (set_Reg i v b) (\<lambda>m. retire m out))"
  by (rule rel_sum_bind_cpp [OF sim_set_Reg]) (simp_all add: sim_retire)

lemma sim_binary_op: "sim a b \<Longrightarrow> same_result (binary_op f i a out) (binary_op f i b out)"
  by (simp add: binary_op_def sim_Reg rel_sum_bind_same sim_set_retire)

lemma sim_ReadWord:
  assumes "sim a b"
  shows "rel_sum (=) (rel_prod (=) (\<lambda>m m'. sim (a\<lparr>memory := m\<rparr>) (b\<lparr>memory := m'\<rparr>)))
           (ReadWord x (memory a)) (ReadWord x (memory b))"
proof -
  have s: "coherent (memory a)" "coherent (memory b)" "same_store (memory a) (memory b)"
    using assms by (simp_all add: sim_def wf_vm_def)
  have "walk_read (memory b) x = walk_read (memory a) x"
    by (rule walk_read_cong [OF s(3)])
  then show ?thesis
    using ReadWord_walk [OF s(1), of x] ReadWord_walk [OF s(2), of x] s(3) assms
    by (auto simp: sim_def wf_vm_def same_store_def)
qed

lemma sim_WriteWord:
  assumes "sim a b"
  shows "rel_sum (=) (rel_prod (=) (\<lambda>m m'. sim (a\<lparr>memory := m\<rparr>) (b\<lparr>memory := m'\<rparr>)))
           (WriteWord x v (memory a)) (WriteWord x v (memory b))"
proof -
  have s: "coherent (memory a)" "coherent (memory b)" "same_store (memory a) (memory b)"
    using assms by (simp_all add: sim_def wf_vm_def)
  have "page_walk (memory b) x = page_walk (memory a) x"
    by (rule page_walk_cong [OF s(3)])
  then show ?thesis
    using WriteWord_walk [OF s(1), of x v] WriteWord_walk [OF s(2), of x v] s(3) assms
    by (cases "page_walk (memory a) x") (auto simp: sim_def wf_vm_def same_store_def)
qed

lemma sim_status: "sim a b \<Longrightarrow> sim (a\<lparr>status := s\<rparr>) (b\<lparr>status := s\<rparr>)"
  by (simp add: sim_def wf_vm_def)

lemma sim_ExecuteOne:
  assumes "sim a b"
  shows "same_result (ExecuteOne i a out) (ExecuteOne i b out)"
proof -
  have dump: "dump_text a = dump_text b"
    using assms by (simp add: dump_text_def sim_def)
  have hilo: "sim (a\<lparr>vcpu := (vcpu a)\<lparr>lo := q, hi := r\<rparr>\<rparr>) (b\<lparr>vcpu := (vcpu b)\<lparr>lo := q, hi := r\<rparr>\<rparr>)"
    for q r
    using assms by (simp add: sim_def wf_vm_def wf_cpu_def)
  show ?thesis
  proof (cases "opcode i")
    case Lw
    show ?thesis
      unfolding ExecuteOne_def Lw
      by (simp, rule rel_sum_bind_cpp [OF sim_ReadWord [OF assms]])
        (auto split: sum.splits intro: sim_fault_with sim_set_retire)
  next
    case Sw
    show ?thesis
      unfolding ExecuteOne_def Sw using sim_Reg [OF assms, of "rs i"]
      by (cases "Reg (rs i) b"; simp; intro rel_sum_bind_cpp [OF sim_WriteWord [OF assms]])
        (auto split: sum.splits intro: sim_fault_with sim_retire)
  next
    case Div
    then show ?thesis
      by (simp add: ExecuteOne_def sim_Reg [OF assms] rel_sum_bind_same sim_fault_with [OF assms]
          sim_retire [OF hilo])
  next
    case Addi
    then show ?thesis
      by (simp add: ExecuteOne_def sim_Reg [OF assms] rel_sum_bind_same sim_set_retire [OF assms])
  qed (use assms in \<open>simp_all add: ExecuteOne_def sim_binary_op sim_set_retire sim_retire
        sim_fault_with dump sim_def wf_vm_def\<close>)
qed

lemma sim_run_loop: "sim a b \<Longrightarrow> same_result (run_loop m k a out) (run_loop m k b out)"
proof (induction m k a out arbitrary: b rule: run_loop.induct)
  case (1 m k a out)
  show ?case
  proof (cases "k < m \<and> pc_nat a < length (program a)")
    case True
    have eq: "vcpu b = vcpu a" "program b = program a"
      using "1.prems" by (simp_all add: sim_def)
    have "same_result (ExecuteOne (program a ! pc_nat a) a out) (ExecuteOne (program b ! pc_nat b) b out)"
      unfolding eq by (rule sim_ExecuteOne [OF "1.prems"])
    then show ?thesis
      using True "1.IH" [OF True] "1.prems" eq
      by (cases "ExecuteOne (program a ! pc_nat a) a out"; cases "ExecuteOne (program b ! pc_nat b) b out")
        (auto simp: run_loop_step)
  next
    case False
    then show ?thesis
      using "1.prems" by (simp add: run_loop_stop sim_def)
  qed
qed

lemma sim_settle: "sim a b \<Longrightarrow> sim (settle a) (settle b)"
  by (auto simp: sim_def settle_def wf_vm_def)

lemma sim_RunForSlice: "sim a b \<Longrightarrow> same_result (RunForSlice n a out) (RunForSlice n b out)"
proof -
  assume s: "sim a b"
  have st: "status a = status b"
    using s by (simp add: sim_def)
  show ?thesis
  proof (cases "is_done (status b)")
    case True
    then show ?thesis using s st by simp
  next
    case False
    then show ?thesis
      using st sim_run_loop [OF sim_status [OF s], of "unat n" 0 Running out]
      by (simp add: RunForSlice_def is_done_def)
        (erule rel_sum_bind_cpp, auto simp: sim_settle)
  qed
qed

lemma sim_Restore:
  assumes "ok_vm vm" and "\<not> is_done (status vm)" and "config vm0 = config vm" and "program vm0 = program vm"
  shows "sim (Restore (vm_Snapshot vm) vm0) (vm\<lparr>status := Ready\<rparr>)"
  using assms
  by (simp add: sim_def Restore_def vm_Snapshot_def RestorePageTable_def same_store_def ok_vm_def
      wf_vm_def coherent_def)

lemma RunForSlice_status:
  "\<not> is_done s \<Longrightarrow> \<not> is_done (status vm) \<Longrightarrow> RunForSlice n (vm\<lparr>status := s\<rparr>) out = RunForSlice n vm out"
  by (simp add: RunForSlice_def is_done_def)

end
