(* ===== verification/Guest_Execution.thy ===== *)
theory Guest_Execution
  imports Virtual_Machine
begin

text \<open>
  What a guest program does, apart from how it is sliced: a reference semantics for the straight-line
  programs of the instruction set, the programs that cannot index outside the register file, stores
  that are loaded back, and a guest that has reached its \<open>MIGRATE\<close>.
\<close>

section \<open>Output is only appended\<close>

definition prepend_out :: "string \<Rightarrow> step_result \<Rightarrow> step_result" where
  "prepend_out out r = (case r of (k, vm, o') \<Rightarrow> (k, vm, out @ o'))"

lemma prepend_out_simps [simp]: "prepend_out out (k, vm, o') = (k, vm, out @ o')"
  by (simp add: prepend_out_def)

lemma ExecuteOne_out:
  "ExecuteOne i vm out = bind_cpp (ExecuteOne i vm []) (\<lambda>r. Inr (prepend_out out r))"
proof -
  have retire: "retire v out = bind_cpp (retire v []) (\<lambda>r. Inr (prepend_out out r))" for v
    by (simp add: retire_def)
  have fault: "fault_with f v out = bind_cpp (fault_with f v []) (\<lambda>r. Inr (prepend_out out r))" for f v
    by (simp add: fault_with_def)
  have same: "bind_cpp m f = bind_cpp (bind_cpp m g) (\<lambda>r. Inr (prepend_out out r))"
    if "\<And>x. f x = bind_cpp (g x) (\<lambda>r. Inr (prepend_out out r))"
    for m :: "'a cpp" and f g
    using that by (cases m) simp_all
  show ?thesis
    by (cases "opcode i")
      (auto simp: ExecuteOne_def binary_op_def retire_def fault_with_def split: sum.splits intro!: same)
qed

section \<open>The reference semantics\<close>

text \<open>
  No instruction jumps, so a program is a list of instructions executed one after the other until one
  of them stops the machine or the list ends.
\<close>

fun run_to_end :: "Instruction list \<Rightarrow> VirtualMachine \<Rightarrow> string \<Rightarrow> (VirtualMachine \<times> string) cpp" where
  "run_to_end [] vm out = Inr (vm\<lparr>status := Halted\<rparr>, out)"
| "run_to_end (i # is) vm out =
     bind_cpp (ExecuteOne i vm out) (\<lambda>(advanced, vm', out').
       if advanced = 0 then Inr (vm', out') else run_to_end is vm' out')"

text \<open>What becomes of a machine that is left to run.\<close>

definition outcome :: "VirtualMachine \<Rightarrow> string \<Rightarrow> (VirtualMachine \<times> string) cpp" where
  "outcome vm out =
     (if is_done (status vm) then Inr (vm, out)
      else run_to_end (drop (pc_nat vm) (program vm)) (vm\<lparr>status := Running\<rparr>) out)"

lemma outcome_done [simp]: "is_done (status vm) \<Longrightarrow> outcome vm out = Inr (vm, out)"
  by (simp add: outcome_def)

lemma run_to_end_out:
  "run_to_end is vm out = bind_cpp (run_to_end is vm []) (\<lambda>(vm', o'). Inr (vm', out @ o'))"
proof (induction "is" arbitrary: vm out)
  case (Cons i "is")
  show ?case
  proof (cases "ExecuteOne i vm []")
    case (Inl e)
    then show ?thesis
      using ExecuteOne_out [of i vm out] by simp
  next
    case (Inr r)
    obtain j vm1 o1 where r: "r = (j, vm1, o1)" by (cases r)
    then have e: "ExecuteOne i vm out = Inr (j, vm1, out @ o1)"
      using ExecuteOne_out [of i vm out] Inr by simp
    show ?thesis
      using Inr r e Cons.IH [of vm1 "out @ o1"] Cons.IH [of vm1 o1]
      by (cases "run_to_end is vm1 []") auto
  qed
qed simp

text \<open>An instruction that leaves the machine blocked is a \<open>MIGRATE\<close>, which changes nothing else.\<close>

lemma ExecuteOne_Blocked:
  assumes "ExecuteOne i vm out = Inr (k, vm', out')" and "status vm' = Blocked"
  shows "opcode i = Migrate" and "vm' = vm\<lparr>pendingMigrationTarget := Some (label i), status := Blocked\<rparr>"
    and "out' = out" and "k = 0"
proof -
  have "k = 0"
    using ExecuteOne_outcome(3) [OF assms(1)] assms(2) by auto
  moreover have m: "opcode i = Migrate"
    using assms by (cases "opcode i") (auto simp: ExecuteOne_def binary_op_def step_Inr)
  ultimately show "opcode i = Migrate" and "k = 0"
    and "vm' = vm\<lparr>pendingMigrationTarget := Some (label i), status := Blocked\<rparr>" and "out' = out"
    using assms(1) by (auto simp: ExecuteOne_def)
qed

text \<open>The machines that stand at a \<open>MIGRATE\<close>, and what every slice of them does: nothing.\<close>

definition parked :: "VirtualMachine \<Rightarrow> bool" where
  "parked vm \<longleftrightarrow> \<not> is_done (status vm) \<and> pc_nat vm < length (program vm) \<and>
     opcode (program vm ! pc_nat vm) = Migrate"

abbreviation target_of :: "VirtualMachine \<Rightarrow> string" where
  "target_of vm \<equiv> label (program vm ! pc_nat vm)"

lemma ExecuteOne_Migrate:
  "opcode i = Migrate \<Longrightarrow>
   ExecuteOne i vm out = Inr (0, vm\<lparr>pendingMigrationTarget := Some (label i), status := Blocked\<rparr>, out)"
  by (simp add: ExecuteOne_def)

lemma RunForSlice_parked:
  assumes "parked vm" and "n \<noteq> 0"
  shows "RunForSlice n vm out =
    Inr (0, vm\<lparr>pendingMigrationTarget := Some (target_of vm), status := Blocked\<rparr>, out)"
proof -
  have "0 < unat n"
    using assms(2) by (simp add: unat_gt_0)
  then show ?thesis
    using assms(1)
    by (simp add: parked_def RunForSlice_def is_done_def run_loop_step ExecuteOne_Migrate settle_def)
qed

lemma parked_fields [simp]:
  "\<not> is_done s \<Longrightarrow> parked (vm\<lparr>pendingMigrationTarget := x, status := s\<rparr>) \<longleftrightarrow>
     \<not> is_done s \<and> pc_nat vm < length (program vm) \<and> opcode (program vm ! pc_nat vm) = Migrate"
  "parked (ClearMigrationIntent vm) \<longleftrightarrow> parked vm"
  by (simp_all add: parked_def ClearMigrationIntent_def)

lemma parked_RunForSlice:
  assumes "parked vm" and "RunForSlice n vm out = Inr (k, vm', out')"
  shows "parked vm'" and "k = 0" and "out' = out"
proof -
  have "parked vm' \<and> k = 0 \<and> out' = out"
  proof (cases "n = 0")
    case True
    then have "vm' = vm\<lparr>status := Ready\<rparr> \<and> k = 0 \<and> out' = out"
      using assms by (auto simp: RunForSlice_def parked_def is_done_def run_loop_stop settle_def)
    then show ?thesis
      using assms(1) by (simp add: parked_def)
  next
    case False
    then show ?thesis
      using assms(2) RunForSlice_parked [OF assms(1) False, of out] assms(1)
      by (auto simp: parked_def)
  qed
  then show "parked vm'" and "k = 0" and "out' = out" by simp_all
qed

lemma outcome_parked:
  "parked vm \<Longrightarrow>
   outcome vm out = Inr (vm\<lparr>pendingMigrationTarget := Some (target_of vm), status := Blocked\<rparr>, out)"
  by (simp add: outcome_def parked_def Cons_nth_drop_Suc [symmetric] ExecuteOne_Migrate)

section \<open>A slice does a part of the reference run\<close>

lemma status_same: "status vm = s \<Longrightarrow> vm\<lparr>status := s\<rparr> = vm"
  for vm :: VirtualMachine
  by (cases vm) simp

text \<open>A machine that an instruction has stopped stays as it is.\<close>

lemma settle_stopped:
  assumes "ExecuteOne (program vm ! pc_nat vm) vm out = Inr (0, vm1, out1)" and "pc_nat vm < length (program vm)"
  shows "outcome (settle vm1) out1 = Inr (vm1, out1)"
proof -
  have st: "status vm1 \<in> {Blocked, Halted, Faulted}" "vcpu vm1 = vcpu vm" "program vm1 = program vm"
    using ExecuteOne_outcome [OF assms(1)] by auto
  show ?thesis
  proof (cases "status vm1 = Blocked")
    case True
    note b = ExecuteOne_Blocked [OF assms(1) True]
    have "parked vm1"
      using assms(2) st b(1) True by (simp add: parked_def)
    moreover have "settle vm1 = vm1" "vm1\<lparr>pendingMigrationTarget := Some (target_of vm1), status := Blocked\<rparr> = vm1"
      using assms(2) st True b(2) by (simp_all add: settle_def)
    ultimately show ?thesis
      using outcome_parked [of vm1 out1] by simp
  next
    case False
    then have "settle vm1 = vm1" and "is_done (status vm1)"
      using assms(2) st by (auto simp: settle_def)
    then show ?thesis by simp
  qed
qed

lemma run_loop_to_end:
  assumes "run_loop m k vm out = Inr (k', vm', out')" and "status vm = Running"
    and "length (program vm) < 2 ^ 64"
  shows "run_to_end (drop (pc_nat vm) (program vm)) vm out = outcome (settle vm') out'"
proof -
  have "status vm = Running \<longrightarrow> length (program vm) < 2 ^ 64 \<longrightarrow>
    (case (k', vm', out') of (k', vm', out') \<Rightarrow>
       run_to_end (drop (pc_nat vm) (program vm)) vm out = outcome (settle vm') out')"
    using assms(1)
  proof (induction rule: run_loop_induct)
    case (stop k vm out)
    then show ?case
      by (auto simp: settle_def outcome_def status_same)
  next
    case (zero k vm out vm1 out1)
    then show ?case
      using settle_stopped [OF zero(3,2)] by (simp add: Cons_nth_drop_Suc [symmetric])
  next
    case (step k vm out vm1 out1 r)
    have o: "status vm1 = Running" "program vm1 = program vm" "pc (vcpu vm1) = pc (vcpu vm) + 1"
      using ExecuteOne_outcome [OF step(3)] by auto
    then show ?case
      using step unat_pc_Suc [of vm] by (auto simp: Cons_nth_drop_Suc [symmetric] split: prod.splits)
  qed
  with assms(2,3) show ?thesis by simp
qed

lemma RunForSlice_outcome:
  assumes "ok_vm vm" and "RunForSlice n vm out = Inr (k, vm', out')"
  shows "outcome vm' out' = outcome vm out"
proof (cases "is_done (status vm)")
  case False
  then obtain vm1 where "run_loop (unat n) 0 (vm\<lparr>status := Running\<rparr>) out = Inr (k, vm1, out')"
    and "vm' = settle vm1"
    using assms(2) by (auto simp: RunForSlice_Inr)
  then show ?thesis
    using run_loop_to_end [of "unat n" 0 "vm\<lparr>status := Running\<rparr>" out k vm1 out'] assms(1) False
    by (simp add: ok_vm_def outcome_def)
qed (use assms in simp)

text \<open>The state a guest ends in, whatever other output is interleaved with its own.\<close>

definition final_vm :: "VirtualMachine \<Rightarrow> VirtualMachine cpp" where
  "final_vm vm = bind_cpp (outcome vm []) (\<lambda>(vm', out). Inr vm')"

lemma final_vm_out: "bind_cpp (outcome vm out) (\<lambda>(vm', out'). Inr vm') = final_vm vm"
  using run_to_end_out [of "drop (pc_nat vm) (program vm)" "vm\<lparr>status := Running\<rparr>" out]
  by (cases "run_to_end (drop (pc_nat vm) (program vm)) (vm\<lparr>status := Running\<rparr>) []")
    (auto simp: final_vm_def outcome_def)

lemma RunForSlice_final_vm:
  "ok_vm vm \<Longrightarrow> RunForSlice n vm out = Inr (k, vm', out') \<Longrightarrow> final_vm vm' = final_vm vm"
  using RunForSlice_outcome [of vm n out k vm' out'] final_vm_out by metis

lemma final_vm_done [simp]: "is_done (status vm) \<Longrightarrow> final_vm vm = Inr vm"
  by (simp add: final_vm_def)

lemma final_vm_Clear: "parked vm \<Longrightarrow> final_vm (ClearMigrationIntent vm) = final_vm vm"
  by (simp add: final_vm_def outcome_parked) (simp add: ClearMigrationIntent_def)

section \<open>Programs without a \<open>MIGRATE\<close>\<close>

definition no_migrate :: "VirtualMachine \<Rightarrow> bool" where
  "no_migrate vm \<longleftrightarrow> list_all (\<lambda>i. opcode i \<noteq> Migrate) (program vm)"

lemma ExecuteOne_pending:
  "ExecuteOne i vm out = Inr (k, vm', out') \<Longrightarrow> opcode i \<noteq> Migrate \<Longrightarrow>
   pendingMigrationTarget vm' = pendingMigrationTarget vm"
  by (cases "opcode i") (auto simp: ExecuteOne_def binary_op_def step_Inr)

lemma run_loop_no_migrate:
  assumes "run_loop m k vm out = Inr (k', vm', out')" and "no_migrate vm"
  shows "pendingMigrationTarget vm' = pendingMigrationTarget vm \<and> (status vm \<noteq> Blocked \<longrightarrow> status vm' \<noteq> Blocked)"
proof -
  have "no_migrate vm \<longrightarrow> (case (k', vm', out') of (k', vm', out') \<Rightarrow>
      pendingMigrationTarget vm' = pendingMigrationTarget vm \<and> (status vm \<noteq> Blocked \<longrightarrow> status vm' \<noteq> Blocked))"
    using assms(1)
  proof (induction rule: run_loop_induct)
    case (zero k vm out vm1 out1)
    show ?case
    proof (clarsimp, rule conjI)
      assume "no_migrate vm"
      then have n: "opcode (program vm ! pc_nat vm) \<noteq> Migrate"
        using zero(2) by (simp add: no_migrate_def list_all_length)
      show "pendingMigrationTarget vm1 = pendingMigrationTarget vm"
        by (rule ExecuteOne_pending [OF zero(3) n])
      show "status vm \<noteq> Blocked \<longrightarrow> status vm1 \<noteq> Blocked"
        using ExecuteOne_Blocked(1) [OF zero(3)] n by auto
    qed
  next
    case (step k vm out vm1 out1 r)
    have "program vm1 = program vm" and "status vm1 = Running"
      using ExecuteOne_outcome [OF step(3)] by auto
    then show ?case
      using step ExecuteOne_pending [OF step(3)]
      by (auto simp: no_migrate_def list_all_length split: prod.splits)
  qed simp
  with assms(2) show ?thesis by simp
qed

text \<open>
  Without a \<open>MIGRATE\<close> a slice of at least one instruction makes progress: the machine is done or
  is ready after as many instructions as the slice has.
\<close>

lemma RunForSlice_no_migrate:
  assumes "ok_vm vm" and "no_migrate vm" and "\<not> is_done (status vm)"
    and "RunForSlice n vm out = Inr (k, vm', out')"
  shows "no_migrate vm'" and "pendingMigrationTarget vm' = pendingMigrationTarget vm"
    and "is_done (status vm') \<or> status vm' = Ready \<and> k = unat n \<and> pc_nat vm' < length (program vm)"
proof -
  obtain vm1 where r: "run_loop (unat n) 0 (vm\<lparr>status := Running\<rparr>) out = Inr (k, vm1, out')"
    and v: "vm' = settle vm1"
    using assms(3,4) by (auto simp: RunForSlice_Inr)
  have n: "pendingMigrationTarget vm1 = pendingMigrationTarget vm \<and> status vm1 \<noteq> Blocked"
    using run_loop_no_migrate [OF r] assms(2) by (simp add: no_migrate_def)
  show "no_migrate vm'"
    using RunForSlice_frame(2) [OF assms(4)] assms(2) by (simp add: no_migrate_def)
  show "pendingMigrationTarget vm' = pendingMigrationTarget vm"
    using n v by simp
  have "status vm' \<noteq> Blocked"
    using n by (auto simp: v settle_def)
  then show "is_done (status vm') \<or> status vm' = Ready \<and> k = unat n \<and> pc_nat vm' < length (program vm)"
    using RunForSlice_account [OF assms(1,3,4)] by (cases "status vm'") auto
qed

section \<open>Register indices\<close>

text \<open>The register operands an opcode uses, each below 32.\<close>

definition in_file :: "int \<Rightarrow> bool" where
  "in_file r \<longleftrightarrow> 0 \<le> r \<and> r < 32"

definition safe_regs :: "Instruction \<Rightarrow> bool" where
  "safe_regs i \<longleftrightarrow>
     (opcode i \<in> {Li, Add, Addi, Sub, Mul, Lw} \<longrightarrow> in_file (rd i)) \<and>
     (opcode i \<in> {Add, Addi, Sub, Mul, Div, Sw} \<longrightarrow> in_file (rs i)) \<and>
     (opcode i \<in> {Add, Sub, Mul, Div} \<longrightarrow> in_file (rt i))"

definition is_arith :: "Instruction \<Rightarrow> bool" where
  "is_arith i \<longleftrightarrow> opcode i \<in> {Add, Addi, Sub, Mul, Div}"

lemma valid_reg_wf: "wf_vm vm \<Longrightarrow> valid_reg r vm \<longleftrightarrow> in_file r"
  by (auto simp: valid_reg_def in_file_def wf_vm_def wf_cpu_def)

lemma arith_abort:
  "add32 a b = Inl e \<Longrightarrow> e = UB_Overflow" "sub32 a b = Inl e \<Longrightarrow> e = UB_Overflow"
  "mul32 a b = Inl e \<Longrightarrow> e = UB_Overflow"
  "div32 a b = Inl e \<Longrightarrow> b \<noteq> 0 \<Longrightarrow> e = UB_Overflow" "rem32 a b = Inl e \<Longrightarrow> b \<noteq> 0 \<Longrightarrow> e = UB_Overflow"
  by (auto simp: add32_def sub32_def mul32_def div32_def rem32_def i32_of_def split: if_splits)

text \<open>
  With register operands in range an instruction never indexes outside the register file or the
  memory; the only undefined behaviour left is a signed overflow of an arithmetic instruction.
\<close>

lemma ExecuteOne_abort:
  assumes "wf_vm vm" and "safe_regs i" and "ExecuteOne i vm out = Inl e"
  shows "is_arith i \<and> e = UB_Overflow"
proof -
  have "returns (ReadWord a (memory vm))" "returns (WriteWord a v (memory vm))" for a v
    using paged.never_aborts assms(1) by (auto simp: wf_vm_def)
  then have mem: "ReadWord a (memory vm) \<noteq> Inl d" "WriteWord a v (memory vm) \<noteq> Inl d" for a v d
    by (metis returns_simps(2))+
  have vr: "valid_reg r (vm\<lparr>memory := m\<rparr>) \<longleftrightarrow> in_file r" for r m
    using valid_reg_wf [OF assms(1)] by (simp add: valid_reg_def)
  show ?thesis
    using assms(2,3) mem vr valid_reg_wf [OF assms(1)]
    by (cases "opcode i")
      (auto simp: ExecuteOne_def binary_op_def safe_regs_def is_arith_def set_Reg_def Reg_def
        retire_def fault_with_def bind_cpp_eq_Inl case_sum_eq_Inl dest: arith_abort split: if_splits)
qed

lemma run_loop_abort:
  assumes "wf_vm vm" and "list_all safe_regs (program vm)" and "run_loop m k vm out = Inl e"
  shows "e = UB_Overflow \<and> list_ex is_arith (program vm)"
  using assms
proof (induction m k vm out rule: run_loop.induct)
  case (1 m k vm out)
  show ?case
  proof (cases "k < m \<and> pc_nat vm < length (program vm)")
    case True
    let ?i = "program vm ! pc_nat vm"
    show ?thesis
    proof (cases "ExecuteOne ?i vm out")
      case (Inl d)
      then show ?thesis
        using True "1.prems" ExecuteOne_abort [of vm ?i out d]
        by (auto simp: run_loop_step list_all_length list_ex_length)
    next
      case (Inr r)
      obtain j vm1 out1 where r: "r = (j, vm1, out1)" by (cases r)
      have w: "wf_vm vm1" "program vm1 = program vm"
        using Inr r wf_vm_ExecuteOne "1.prems"(1) ExecuteOne_outcome(2) by auto
      then show ?thesis
        using "1.IH" [OF True Inr r [symmetric]] "1.prems" True Inr r
        by (auto simp: run_loop_step split: if_splits)
    qed
  next
    case False
    then show ?thesis
      using "1.prems"(3) by (simp add: run_loop_stop)
  qed
qed

lemma RunForSlice_abort:
  assumes "wf_vm vm" and "list_all safe_regs (program vm)" and "RunForSlice n vm out = Inl e"
  shows "e = UB_Overflow \<and> list_ex is_arith (program vm)"
proof -
  have "\<not> is_done (status vm)"
    using assms(3) by (auto simp: RunForSlice_def is_done_def)
  then have "run_loop (unat n) 0 (vm\<lparr>status := Running\<rparr>) out = Inl e"
    using assms(3) by (auto simp: RunForSlice_def is_done_def bind_cpp_eq_Inl)
  then show ?thesis
    using run_loop_abort [of "vm\<lparr>status := Running\<rparr>" "unat n" 0 out e] assms(1,2) by simp
qed

text \<open>Programs that never abort: registers in range and no arithmetic.\<close>

definition abort_free :: "VirtualMachine \<Rightarrow> bool" where
  "abort_free vm \<longleftrightarrow> list_all (\<lambda>i. safe_regs i \<and> \<not> is_arith i) (program vm)"

lemma RunForSlice_returns: "wf_vm vm \<Longrightarrow> abort_free vm \<Longrightarrow> returns (RunForSlice n vm out)"
  using RunForSlice_abort [of vm n out]
  by (cases "RunForSlice n vm out") (auto simp: abort_free_def list_all_length list_ex_length)

section \<open>Stores that are loaded back\<close>

lemma store_then_load:
  assumes "wf_vm vm" and "opcode i = Sw" and "opcode j = Lw" and "imm j = imm i"
    and "in_file (rd j)" and "ExecuteOne i vm out = Inr (1, vm1, out1)"
  shows "\<exists>vm2. ExecuteOne j vm1 out1 = Inr (1, vm2, out1) \<and> regs (vcpu vm2) ! nat (rd j) = regs (vcpu vm) ! nat (rs i)"
proof -
  have "\<exists>m. WriteWord (imm i) (regs (vcpu vm) ! nat (rs i)) (memory vm) = Inr (Inr (), m) \<and>
      vm1 = vm\<lparr>memory := m, vcpu := (vcpu vm)\<lparr>pc := pc (vcpu vm) + 1\<rparr>, status := Running\<rparr>"
    using assms(2,6) by (auto simp: ExecuteOne_def step_Inr split: sum.splits)
  then obtain m where wr: "WriteWord (imm i) (regs (vcpu vm) ! nat (rs i)) (memory vm) = Inr (Inr (), m)"
    and vm1: "vm1 = vm\<lparr>memory := m, vcpu := (vcpu vm)\<lparr>pc := pc (vcpu vm) + 1\<rparr>, status := Running\<rparr>"
    by blast
  have "coherent (memory vm)" and len: "length (regs (vcpu vm)) = 32"
    using assms(1) by (simp_all add: wf_vm_def wf_cpu_def)
  then obtain m2 where "ReadWord (imm i) m = Inr (Inr (regs (vcpu vm) ! nat (rs i)), m2)"
    using paged.store_load [OF _ wr] by blast
  then show ?thesis
    using assms(3,4,5) len nat_less_iff [of "rd j" 32]
    by (simp add: ExecuteOne_def vm1 set_Reg_def valid_reg_def in_file_def retire_def)
qed

end
