(* ===== verification/State_Serializer.thy ===== *)
theory State_Serializer
  imports Virtual_Memory
begin

text \<open>
  The migration packet: \<open>include/migration/state_serializer.hpp\<close> and
  \<open>src/migration/state_serializer.cpp\<close>. The error string of \<open>Deserialize\<close> is the left side of
  its result; a read past the end of the payload is undefined behaviour, an abort.
\<close>

section \<open>The code\<close>

record MigrationPacket =
  version :: u32
  checksum :: u32
  payload :: "byte list"

definition byte_of_char :: "char \<Rightarrow> byte" where
  "byte_of_char c = of_char c"

definition char_of_byte :: "byte \<Rightarrow> char" where
  "char_of_byte b = char_of (unat b)"

text \<open>\<open>Append\<close> inserts the object representation, \<open>Read\<close> copies one out and advances the offset.\<close>

definition Append :: "nat \<Rightarrow> 'a::len word \<Rightarrow> byte list \<Rightarrow> byte list" where
  "Append n v out = out @ le_bytes n v"

definition Read :: "nat \<Rightarrow> byte list \<Rightarrow> nat \<Rightarrow> ('a::len word \<times> nat) cpp" where
  "Read n inp offset = bind_cpp (memcpy_from inp offset n) (\<lambda>bs. Inr (of_le_bytes bs, offset + n))"

text \<open>FNV-1a.\<close>

definition fnv_step :: "u32 \<Rightarrow> byte \<Rightarrow> u32" where
  "fnv_step hash b = (hash XOR ucast b) * 16777619"

definition ComputeChecksum :: "byte list \<Rightarrow> u32" where
  "ComputeChecksum bs = foldl fnv_step 2166136261 bs"

definition serialize_payload :: "VmSnapshot \<Rightarrow> byte list" where
  "serialize_payload s =
     (let p = Append 4 (of_nat (length (vmName s)) :: u32) [];
          p = p @ map byte_of_char (vmName s);
          p = Append 8 (pc (cpu s)) p;
          p = Append 4 (hi (cpu s)) p;
          p = Append 4 (lo (cpu s)) p;
          p = foldl (\<lambda>p r. Append 4 r p) p (regs (cpu s));
          p = Append 4 (of_nat (length (memoryBytes s)) :: u32) p
      in p @ memoryBytes s)"

definition Serialize :: "VmSnapshot \<Rightarrow> MigrationPacket" where
  "Serialize s =
     (let p = serialize_payload s in \<lparr>version = 1, checksum = ComputeChecksum p, payload = p\<rparr>)"

text \<open>The loop over the register array of the target snapshot.\<close>

fun read_regs :: "nat \<Rightarrow> byte list \<Rightarrow> nat \<Rightarrow> (i32 list \<times> nat) cpp" where
  "read_regs 0 inp offset = Inr ([], offset)"
| "read_regs (Suc n) inp offset =
     bind_cpp (Read 4 inp offset) (\<lambda>(r, offset).
     bind_cpp (read_regs n inp offset) (\<lambda>(rs, offset). Inr (r # rs, offset)))"

definition Deserialize :: "MigrationPacket \<Rightarrow> VmSnapshot \<Rightarrow> ((string + unit) \<times> VmSnapshot) cpp" where
  "Deserialize packet s =
     (if version packet \<noteq> 1 then Inr (Inl ''unsupported migration version'', s)
      else if checksum packet \<noteq> ComputeChecksum (payload packet)
      then Inr (Inl ''migration checksum mismatch'', s)
      else
        let inp = payload packet in
        bind_cpp (Read 4 inp 0) (\<lambda>(nameLen :: u32, offset).
        bind_cpp (memcpy_from inp offset (unat nameLen)) (\<lambda>nm.
        bind_cpp (Read 8 inp (offset + unat nameLen)) (\<lambda>(pc', offset).
        bind_cpp (Read 4 inp offset) (\<lambda>(hi', offset).
        bind_cpp (Read 4 inp offset) (\<lambda>(lo', offset).
        bind_cpp (read_regs (length (regs (cpu s))) inp offset) (\<lambda>(regs', offset).
        bind_cpp (Read 4 inp offset) (\<lambda>(memSize :: u32, offset).
        bind_cpp (memcpy_from inp offset (unat memSize)) (\<lambda>mem.
        Inr (Inr (),
          s\<lparr>vmName := map char_of_byte nm,
            cpu := \<lparr>regs = regs', hi = hi', lo = lo', pc = pc'\<rparr>,
            memoryBytes := mem\<rparr>))))))))))"

section \<open>Round trip\<close>

lemma char_of_byte_of_char [simp]: "char_of_byte (byte_of_char c) = c"
proof -
  have "unat (of_char c :: byte) = unat (of_nat (of_char c) :: byte)"
    by (simp only: of_nat_of_char)
  also have "\<dots> = of_char c mod 256"
    by (subst unat_of_nat) simp
  finally have "unat (of_char c :: byte) = of_char c"
    by (simp add: of_char_mod_256)
  then show ?thesis
    by (simp add: char_of_byte_def byte_of_char_def)
qed

lemma map_char_of_byte_of_char [simp]: "map char_of_byte (map byte_of_char cs) = cs"
  by (induction cs) simp_all

text \<open>
  Reading is local: it looks at the part of the input behind the offset only. \<open>rest_at\<close> says what
  stands there.
\<close>

definition rest_at :: "byte list \<Rightarrow> nat \<Rightarrow> byte list \<Rightarrow> bool" where
  "rest_at inp offset rest \<longleftrightarrow> offset \<le> length inp \<and> drop offset inp = rest"

lemma rest_at_0 [simp]: "rest_at inp 0 rest \<longleftrightarrow> inp = rest"
  by (simp add: rest_at_def)

lemma rest_at_fits: "rest_at inp k (xs @ rest) \<Longrightarrow> k + length xs \<le> length inp"
proof -
  assume r: "rest_at inp k (xs @ rest)"
  then have "length (drop k inp) = length (xs @ rest)"
    by (simp only: rest_at_def)
  then have "length inp - k = length xs + length rest"
    by (simp only: length_drop length_append)
  moreover have "k \<le> length inp"
    using r by (simp only: rest_at_def)
  ultimately show "k + length xs \<le> length inp"
    by arith
qed

lemma rest_at_append:
  assumes "rest_at inp k (xs @ rest)"
  shows "rest_at inp (k + length xs) rest"
proof -
  have "drop (length xs) (drop k inp) = rest"
    using assms by (simp add: rest_at_def)
  then show ?thesis
    using rest_at_fits [OF assms] by (simp add: rest_at_def add.commute)
qed

lemma memcpy_rest:
  assumes "rest_at inp k (xs @ rest)"
  shows "memcpy_from inp k (length xs) = Inr xs"
proof -
  have "take (length xs) (drop k inp) = xs"
    using assms by (simp add: rest_at_def)
  then show ?thesis
    using rest_at_fits [OF assms] by (simp add: memcpy_from_def)
qed

lemma Read_rest:
  assumes "rest_at inp k (le_bytes n w @ rest)" and "8 * n = LENGTH('a)"
  shows "Read n inp k = Inr (w :: 'a::len word, k + n)" and "rest_at inp (k + n) rest"
  using memcpy_rest [OF assms(1)] rest_at_append [OF assms(1)] assms(2) by (simp_all add: Read_def)

lemma read_regs_rest:
  "rest_at inp k (concat (map (le_bytes 4) rs) @ rest) \<Longrightarrow>
   read_regs (length rs) inp k = Inr (rs, k + 4 * length rs) \<and> rest_at inp (k + 4 * length rs) rest"
proof (induction rs arbitrary: k)
  case (Cons r rs)
  have r: "rest_at inp k (le_bytes 4 r @ concat (map (le_bytes 4) rs) @ rest)"
    using Cons.prems by simp
  show ?case
    using Read_rest [OF r] Cons.IH [of "k + 4"] by (simp add: add.assoc)
qed simp

lemma foldl_Append: "foldl (\<lambda>p r. Append 4 r p) p rs = p @ concat (map (le_bytes 4) rs)"
  by (induction rs arbitrary: p) (simp_all add: Append_def)

lemma serialize_payload_eq:
  "serialize_payload s =
     le_bytes 4 (of_nat (length (vmName s)) :: u32) @ map byte_of_char (vmName s) @
     le_bytes 8 (pc (cpu s)) @ le_bytes 4 (hi (cpu s)) @ le_bytes 4 (lo (cpu s)) @
     concat (map (le_bytes 4) (regs (cpu s))) @
     le_bytes 4 (of_nat (length (memoryBytes s)) :: u32) @ memoryBytes s"
  by (simp add: serialize_payload_def Let_def foldl_Append) (simp add: Append_def)

text \<open>The snapshots whose lengths the 32-bit length fields hold.\<close>

definition fits_packet :: "VmSnapshot \<Rightarrow> bool" where
  "fits_packet s \<longleftrightarrow> length (vmName s) < 2 ^ 32 \<and> length (memoryBytes s) < 2 ^ 32"

lemma unat_len32: "n < 2 ^ 32 \<Longrightarrow> unat (of_nat n :: u32) = n"
  by (simp add: unat_of_nat)

lemma Deserialize_Serialize:
  assumes "fits_packet s" and "length (regs (cpu t)) = length (regs (cpu s))"
  shows "Deserialize (Serialize s) t = Inr (Inr (), s\<lparr>pageTable := pageTable t\<rparr>)"
proof -
  let ?p = "serialize_payload s" and ?n = "length (vmName s)" and ?m = "length (memoryBytes s)"
  have n: "unat (of_nat ?n :: u32) = ?n" and m: "unat (of_nat ?m :: u32) = ?m"
    using assms(1) by (simp_all add: fits_packet_def unat_len32)
  have r0: "rest_at ?p 0 (le_bytes 4 (of_nat ?n :: u32) @ map byte_of_char (vmName s) @
      le_bytes 8 (pc (cpu s)) @ le_bytes 4 (hi (cpu s)) @ le_bytes 4 (lo (cpu s)) @
      concat (map (le_bytes 4) (regs (cpu s))) @ le_bytes 4 (of_nat ?m :: u32) @ memoryBytes s @ [])"
    by (simp add: serialize_payload_eq)
  note s1 = Read_rest [OF r0, simplified]
  note s2 = memcpy_rest [OF s1(2), simplified] rest_at_append [OF s1(2), simplified]
  note s3 = Read_rest [OF s2(2), simplified]
  note s4 = Read_rest [OF s3(2), simplified]
  note s5 = Read_rest [OF s4(2), simplified]
  note s6 = read_regs_rest [OF s5(2), simplified]
  note s7 = Read_rest [OF s6 [THEN conjunct2], simplified]
  note s8 = memcpy_rest [of ?p _ "memoryBytes s" "[]", simplified, OF s7(2)]
  show ?thesis
    using s1(1) s2(1) s3(1) s4(1) s5(1) s6 s7(1) s8 assms(2)
    by (simp add: Deserialize_def Serialize_def Let_def n m o_def VmSnapshot_eqI)
qed

section \<open>Packets that are refused\<close>

lemma Deserialize_bad_version [simp]:
  "version p \<noteq> 1 \<Longrightarrow> Deserialize p s = Inr (Inl ''unsupported migration version'', s)"
  by (simp add: Deserialize_def)

lemma Deserialize_bad_checksum:
  "version p = 1 \<Longrightarrow> checksum p \<noteq> ComputeChecksum (payload p) \<Longrightarrow>
   Deserialize p s = Inr (Inl ''migration checksum mismatch'', s)"
  by (simp add: Deserialize_def)

text \<open>
  The step of the checksum is injective in the hash, because the FNV prime is odd and so has an
  inverse modulo \<open>2 ^ 32\<close>, and in the byte. Hence two payloads of one length that differ in exactly
  one byte have different checksums.
\<close>

lemma fnv_prime_inverse: "(x * 16777619) * 899433627 = (x :: u32)"
proof -
  have "(16777619 :: u32) * 899433627 = 1"
    by simp
  then show ?thesis
    by (simp only: mult.assoc mult_1_right)
qed

lemma fnv_prime_cancel: "x * 16777619 = y * 16777619 \<longleftrightarrow> x = (y :: u32)"
  by (metis fnv_prime_inverse)

lemma xor_cancel: "(x XOR z = y XOR z) = (x = (y :: 'a::len word))"
  by (metis xor.assoc xor.right_neutral xor_self_eq)

lemma fnv_step_hash [simp]: "fnv_step h b = fnv_step h' b \<longleftrightarrow> h = h'"
  by (simp add: fnv_step_def fnv_prime_cancel xor_cancel)

lemma byte_ucast_ucast: "ucast (ucast b :: u32) = (b :: byte)"
  by transfer simp

lemma fnv_step_byte [simp]: "fnv_step h b = fnv_step h b' \<longleftrightarrow> b = b'"
proof -
  have "fnv_step h b = fnv_step h b' \<longleftrightarrow> (ucast b :: u32) = ucast b'"
    by (simp add: fnv_step_def fnv_prime_cancel xor.commute [of h] xor_cancel)
  also have "\<dots> \<longleftrightarrow> b = b'"
    by (metis byte_ucast_ucast)
  finally show ?thesis .
qed

lemma foldl_fnv_inj: "foldl fnv_step h bs = foldl fnv_step h' bs \<longleftrightarrow> h = h'"
  by (induction bs arbitrary: h h') simp_all

lemma ComputeChecksum_one_byte:
  "ComputeChecksum (xs @ b # ys) = ComputeChecksum (xs @ b' # ys) \<longleftrightarrow> b = b'"
  by (simp add: ComputeChecksum_def foldl_fnv_inj)

lemma Deserialize_corrupted:
  assumes "payload (Serialize s) = xs @ b # ys" and "b' \<noteq> b"
  shows "Deserialize ((Serialize s)\<lparr>payload := xs @ b' # ys\<rparr>) t = Inr (Inl ''migration checksum mismatch'', t)"
proof (rule Deserialize_bad_checksum)
  have "checksum (Serialize s) = ComputeChecksum (xs @ b # ys)"
    using assms(1) by (simp add: Serialize_def Let_def)
  then show "checksum ((Serialize s)\<lparr>payload := xs @ b' # ys\<rparr>)
      \<noteq> ComputeChecksum (payload ((Serialize s)\<lparr>payload := xs @ b' # ys\<rparr>))"
    using assms(2) by (simp add: ComputeChecksum_one_byte)
qed (simp add: Serialize_def Let_def)

text \<open>
  The checksum is not keyed: a packet whose payload is too short for the fields passes the two checks
  and is read past its end.
\<close>

lemma Deserialize_truncated:
  assumes "length bs < 4"
  shows "Deserialize \<lparr>version = 1, checksum = ComputeChecksum bs, payload = bs\<rparr> t = Inl UB_Bounds"
  using assms by (simp add: Deserialize_def Read_def memcpy_from_def Let_def)

end
