(* ===== verification/Host.thy ===== *)
theory Host
  imports VMM_Types
begin

text \<open>
  The host the program runs on, as far as the code observes it: the text written to
  \<open>std::cout\<close> and \<open>std::cerr\<close>, the files by path with the paths that can be opened for
  writing, and the steady clock, whose \<open>k\<close>-th reading in nanoseconds is \<open>clock k\<close>.
\<close>

record World =
  cout :: string
  cerr :: string
  files :: "string \<rightharpoonup> string"
  writable :: "string \<Rightarrow> bool"
  clock :: "nat \<Rightarrow> int"
  readings :: nat

text \<open>\<open>std::chrono::steady_clock::now\<close>; the standard promises that it never goes back.\<close>

definition now :: "World \<Rightarrow> int \<times> World" where
  "now w = (clock w (readings w), w\<lparr>readings := Suc (readings w)\<rparr>)"

definition steady :: "World \<Rightarrow> bool" where
  "steady w \<longleftrightarrow> mono (clock w)"

text \<open>A host with no output and no files yet, and a clock that stands still.\<close>

definition World_init :: World where
  "World_init = \<lparr>cout = [], cerr = [], files = Map.empty, writable = (\<lambda>_. True), clock = (\<lambda>_. 0), readings = 0\<rparr>"

end
