(* ===== verification/Metrics.thy ===== *)
theory Metrics
  imports Host
begin

text \<open>
  Scheduling and migration metrics: \<open>include/metrics/metrics_tracer.hpp\<close> and
  \<open>src/metrics/metrics_tracer.cpp\<close>. A time point is a number of nanoseconds, a duration a
  number of milliseconds. \<open>operator[]\<close> of the maps enters a zero for a missing name.
\<close>

record MetricsTracer =
  stats :: SchedulerStats
  migrationStart :: int
  lastMigrationDuration :: int

definition MetricsTracer_init :: MetricsTracer where
  "MetricsTracer_init =
     \<lparr>stats = \<lparr>instructionsByVm = Map.empty, dispatchCountByVm = Map.empty\<rparr>,
      migrationStart = 0, lastMigrationDuration = 0\<rparr>"

definition count_at :: "('k \<rightharpoonup> size_t) \<Rightarrow> 'k \<Rightarrow> size_t" where
  "count_at m k = (case m k of None \<Rightarrow> 0 | Some c \<Rightarrow> c)"

definition RecordDispatch :: "string \<Rightarrow> MetricsTracer \<Rightarrow> MetricsTracer" where
  "RecordDispatch vm m =
     m\<lparr>stats := (stats m)\<lparr>dispatchCountByVm :=
        (dispatchCountByVm (stats m))(vm \<mapsto> count_at (dispatchCountByVm (stats m)) vm + 1)\<rparr>\<rparr>"

definition RecordInstructions :: "string \<Rightarrow> size_t \<Rightarrow> MetricsTracer \<Rightarrow> MetricsTracer" where
  "RecordInstructions vm n m =
     m\<lparr>stats := (stats m)\<lparr>instructionsByVm :=
        (instructionsByVm (stats m))(vm \<mapsto> count_at (instructionsByVm (stats m)) vm + n)\<rparr>\<rparr>"

definition StartMigration :: "World \<Rightarrow> MetricsTracer \<Rightarrow> MetricsTracer \<times> World" where
  "StartMigration w m = (case now w of (t, w') \<Rightarrow> (m\<lparr>migrationStart := t\<rparr>, w'))"

text \<open>\<open>std::chrono::duration_cast\<close> truncates towards zero.\<close>

definition EndMigration :: "World \<Rightarrow> MetricsTracer \<Rightarrow> MetricsTracer \<times> World" where
  "EndMigration w m =
     (case now w of (t, w') \<Rightarrow> (m\<lparr>lastMigrationDuration := (t - migrationStart m) sdiv 1000000\<rparr>, w'))"

section \<open>What is counted\<close>

abbreviation retired_count :: "MetricsTracer \<Rightarrow> string \<Rightarrow> size_t" where
  "retired_count m \<equiv> count_at (instructionsByVm (stats m))"

abbreviation dispatch_count :: "MetricsTracer \<Rightarrow> string \<Rightarrow> size_t" where
  "dispatch_count m \<equiv> count_at (dispatchCountByVm (stats m))"

lemma count_at_empty [simp]: "count_at Map.empty k = 0"
  by (simp add: count_at_def)

lemma count_at_upd [simp]: "count_at (m(k \<mapsto> c)) j = (if j = k then c else count_at m j)"
  by (simp add: count_at_def)

lemma RecordDispatch_counts [frame_simps]:
  "dispatch_count (RecordDispatch v m) u = dispatch_count m u + (if u = v then 1 else 0)"
  "retired_count (RecordDispatch v m) u = retired_count m u"
  by (simp_all add: RecordDispatch_def)

lemma RecordInstructions_counts [frame_simps]:
  "retired_count (RecordInstructions v n m) u = retired_count m u + (if u = v then n else 0)"
  "dispatch_count (RecordInstructions v n m) u = dispatch_count m u"
  by (simp_all add: RecordInstructions_def)

lemma StartMigration_counts [frame_simps]: "stats (fst (StartMigration w m)) = stats m"
  and EndMigration_counts [frame_simps]: "stats (fst (EndMigration w m)) = stats m"
  by (simp_all add: StartMigration_def EndMigration_def now_def)

text \<open>On a steady clock the measured duration is the elapsed time in whole milliseconds, never negative.\<close>

lemma migration_duration:
  assumes "steady w" and "StartMigration w m = (m1, w1)"
    and "clock w2 = clock w1" and "readings w1 \<le> readings w2" and "stats m2 = stats m1"
    and "migrationStart m2 = migrationStart m1" and "EndMigration w2 m2 = (m3, w3)"
  shows "0 \<le> lastMigrationDuration m3 \<and>
         lastMigrationDuration m3 * 1000000 \<le> clock w (readings w2) - clock w (readings w) \<and>
         clock w (readings w2) - clock w (readings w) < (lastMigrationDuration m3 + 1) * 1000000"
proof -
  define d where "d = clock w (readings w2) - clock w (readings w)"
  have "readings w \<le> readings w2"
    using assms(2,4) by (auto simp: StartMigration_def now_def)
  then have d: "0 \<le> d"
    using assms(1) by (simp add: d_def steady_def mono_def)
  have "lastMigrationDuration m3 = d sdiv 1000000"
    using assms by (auto simp: StartMigration_def EndMigration_def now_def d_def)
  also have "\<dots> = d div 1000000"
    using d by (cases "d = 0") (simp_all add: signed_divide_int_def)
  finally show ?thesis
    using d unfolding d_def [symmetric] by auto
qed

end
