(* ===== verification/Migration.thy ===== *)
theory Migration
  imports State_Serializer Virtual_Machine Metrics
begin

text \<open>
  Sending a machine away: \<open>include/migration/migration_protocol.hpp\<close>,
  \<open>include/migration/migration_service.hpp\<close>, \<open>src/migration/migration_protocol.cpp\<close> and
  \<open>src/migration/migration_service.cpp\<close>. The abstract class \<open>IMigrationTransport\<close> is a record of
  its two virtual functions, over the type of the state an implementation keeps.
\<close>

section \<open>The code\<close>

record 't IMigrationTransport =
  Handshake :: "string \<Rightarrow> u32 \<Rightarrow> 't \<Rightarrow> bool \<times> 't"
  SendPacket :: "MigrationPacket \<Rightarrow> 't \<Rightarrow> bool \<times> 't"

text \<open>The loop of \<open>SendWithRetry\<close>, with the number of attempts that are left.\<close>

fun send_attempts :: "nat \<Rightarrow> 't IMigrationTransport \<Rightarrow> MigrationPacket \<Rightarrow> 't \<Rightarrow> bool \<times> 't" where
  "send_attempts 0 tr packet t = (False, t)"
| "send_attempts (Suc n) tr packet t =
     (case SendPacket tr packet t of
        (True, t') \<Rightarrow> (True, t')
      | (False, t') \<Rightarrow> send_attempts n tr packet t')"

definition SendWithRetry ::
  "'t IMigrationTransport \<Rightarrow> string \<Rightarrow> MigrationPacket \<Rightarrow> 't \<Rightarrow> (string + unit) \<times> 't" where
  "SendWithRetry tr target packet t =
     (case Handshake tr target (version packet) t of
        (False, t') \<Rightarrow> (Inl ''handshake failed'', t')
      | (True, t') \<Rightarrow>
          (case send_attempts 3 tr packet t' of
             (True, t'') \<Rightarrow> (Inr (), t'')
           | (False, t'') \<Rightarrow> (Inl ''packet send retries exhausted'', t'')))"

record 't MigrationService =
  transport :: "'t IMigrationTransport"
  transport_state :: 't
  service_metrics :: MetricsTracer

text \<open>The pre-copy rounds, which let the machine run and copy nothing.\<close>

fun precopy_rounds :: "nat \<Rightarrow> VirtualMachine \<Rightarrow> string \<Rightarrow> (VirtualMachine \<times> string) cpp" where
  "precopy_rounds 0 vm out = Inr (vm, out)"
| "precopy_rounds (Suc n) vm out =
     bind_cpp (RunForSlice 10 vm out) (\<lambda>(retired, vm', out'). precopy_rounds n vm' out')"

definition PreCopyMigrate ::
  "VirtualMachine \<Rightarrow> string \<Rightarrow> 't MigrationService \<Rightarrow> World \<Rightarrow>
     ((string + unit) \<times> VirtualMachine \<times> 't MigrationService \<times> World) cpp" where
  "PreCopyMigrate vm target ms w =
     (let (met, w) = StartMigration w (service_metrics ms)
      in bind_cpp (precopy_rounds 2 vm (cout w)) (\<lambda>(vm', out).
         let finalSnapshot = vm_Snapshot vm';
             packet = Serialize finalSnapshot;
             (r, t) = SendWithRetry (transport ms) target packet (transport_state ms);
             (met, w) = EndMigration (w\<lparr>cout := out\<rparr>) met
         in Inr (r, vm', ms\<lparr>transport_state := t, service_metrics := met\<rparr>, w)))"

section \<open>The retry protocol\<close>

text \<open>
  The state of a transport after \<open>k\<close> attempts, and whether attempt \<open>k\<close> succeeds: the specification
  of \<open>SendWithRetry\<close> speaks of these, for a transport of any kind.
\<close>

fun sent :: "'t IMigrationTransport \<Rightarrow> MigrationPacket \<Rightarrow> nat \<Rightarrow> 't \<Rightarrow> 't" where
  "sent tr packet 0 t = t"
| "sent tr packet (Suc k) t = sent tr packet k (snd (SendPacket tr packet t))"

definition accepted :: "'t IMigrationTransport \<Rightarrow> MigrationPacket \<Rightarrow> 't \<Rightarrow> nat \<Rightarrow> bool" where
  "accepted tr packet t k = fst (SendPacket tr packet (sent tr packet k t))"

lemma accepted_Suc:
  "accepted tr p t (Suc k) \<longleftrightarrow> accepted tr p (snd (SendPacket tr p t)) k"
  by (simp add: accepted_def)

lemma accepted_0: "accepted tr p t 0 = fst (SendPacket tr p t)"
  by (simp add: accepted_def)

lemma send_attempts_accept:
  "accepted tr p t k \<Longrightarrow> \<forall>j < k. \<not> accepted tr p t j \<Longrightarrow> k < n \<Longrightarrow>
   send_attempts n tr p t = (True, sent tr p (Suc k) t)"
proof (induction n arbitrary: k t)
  case (Suc n)
  obtain b t' where s: "SendPacket tr p t = (b, t')"
    by (cases "SendPacket tr p t")
  show ?case
  proof (cases k)
    case 0
    then show ?thesis
      using Suc.prems(1) s by (simp add: accepted_0)
  next
    case (Suc j)
    then have "\<not> b"
      using Suc.prems(2) s accepted_0 [of tr p t] by (metis fst_conv zero_less_Suc)
    moreover have "\<forall>i < j. \<not> accepted tr p t' i"
      using Suc.prems(2) Suc s accepted_Suc [of tr p t] by auto
    moreover have "accepted tr p t' j"
      using Suc.prems(1) Suc s by (simp add: accepted_Suc)
    ultimately show ?thesis
      using Suc.IH [of t' j] Suc.prems(3) Suc s by simp
  qed
qed simp

lemma send_attempts_exhaust:
  "\<forall>j < n. \<not> accepted tr p t j \<Longrightarrow> send_attempts n tr p t = (False, sent tr p n t)"
proof (induction n arbitrary: t)
  case (Suc n)
  obtain b t' where s: "SendPacket tr p t = (b, t')"
    by (cases "SendPacket tr p t")
  have "\<not> b"
    using Suc.prems s accepted_0 [of tr p t] by (metis fst_conv zero_less_Suc)
  moreover have "\<forall>i < n. \<not> accepted tr p t' i"
    using Suc.prems s accepted_Suc [of tr p t] by auto
  ultimately show ?case
    using Suc.IH [of t'] s by simp
qed simp

text \<open>
  What a client of a lossy transport relies on: the handshake is granted and costs nothing, and a
  bound on the packets that can still be lost in a row goes down with every loss.
\<close>

locale lossy_transport =
  fixes tr :: "'t IMigrationTransport"
    and losses :: "'t \<Rightarrow> nat"
  assumes grants: "fst (Handshake tr target v t)"
    and handshake_losses: "losses (snd (Handshake tr target v t)) \<le> losses t"
    and loss: "\<not> fst (SendPacket tr p t) \<Longrightarrow> losses (snd (SendPacket tr p t)) < losses t"
begin

lemma attempts_succeed: "losses t < n \<Longrightarrow> fst (send_attempts n tr p t)"
proof (induction n arbitrary: t)
  case (Suc n)
  show ?case
    using Suc.IH [of "snd (SendPacket tr p t)"] loss [of p t] Suc.prems
    by (cases "SendPacket tr p t") (auto split: bool.splits)
qed simp

lemma SendWithRetry_succeeds:
  assumes "losses t < 3"
  shows "fst (SendWithRetry tr target p t) = Inr ()"
proof -
  obtain t' where h: "Handshake tr target (version p) t = (True, t')"
    using grants [of target "version p" t] by (cases "Handshake tr target (version p) t") auto
  then have "losses t' < 3"
    using handshake_losses [of target "version p" t] assms by simp
  then have "fst (send_attempts 3 tr p t')"
    by (rule attempts_succeed)
  then show ?thesis
    using h by (cases "send_attempts 3 tr p t'") (simp add: SendWithRetry_def)
qed

end

section \<open>A migration as a whole\<close>

lemma ok_vm_precopy:
  "precopy_rounds n vm out = Inr (vm', out') \<Longrightarrow> ok_vm vm \<Longrightarrow>
   ok_vm vm' \<and> config vm' = config vm \<and> program vm' = program vm"
proof (induction n arbitrary: vm out)
  case (Suc n)
  then obtain k vm1 out1 where r: "RunForSlice 10 vm out = Inr (k, vm1, out1)"
    and p: "precopy_rounds n vm1 out1 = Inr (vm', out')"
    by (auto simp: outcome_simps)
  show ?case
    using Suc.IH [OF p] ok_vm_RunForSlice [OF Suc.prems(2) r] RunForSlice_frame [OF r] by simp
qed simp

lemma precopy_done: "is_done (status vm) \<Longrightarrow> precopy_rounds n vm out = Inr (vm, out)"
  by (induction n) simp_all

text \<open>
  What \<open>PreCopyMigrate\<close> returns: the outcome of the retry protocol on the packet of the machine
  after the rounds, and that machine. The instructions the rounds retire are counted nowhere.
\<close>

lemma PreCopyMigrate_Inr:
  assumes "PreCopyMigrate vm target ms w = Inr (r, vm', ms', w')"
  shows "precopy_rounds 2 vm (cout w) = Inr (vm', cout w')"
    and "(r, transport_state ms') =
           SendWithRetry (transport ms) target (Serialize (vm_Snapshot vm')) (transport_state ms)"
    and "stats (service_metrics ms') = stats (service_metrics ms)" and "transport ms' = transport ms"
    and "files w' = files w" and "cerr w' = cerr w"
proof -
  obtain met1 w1 where s: "StartMigration w (service_metrics ms) = (met1, w1)"
    by (cases "StartMigration w (service_metrics ms)")
  then have w1: "cout w1 = cout w" "files w1 = files w" "cerr w1 = cerr w"
    and m1: "stats met1 = stats (service_metrics ms)"
    by (auto simp: StartMigration_def now_def)
  from assms obtain vm1 out where p: "precopy_rounds 2 vm (cout w) = Inr (vm1, out)"
    using s w1 by (auto simp: PreCopyMigrate_def outcome_simps)
  obtain r1 t where sw: "SendWithRetry (transport ms) target (Serialize (vm_Snapshot vm1)) (transport_state ms) = (r1, t)"
    by (cases "SendWithRetry (transport ms) target (Serialize (vm_Snapshot vm1)) (transport_state ms)")
  obtain met2 w2 where e: "EndMigration (w1\<lparr>cout := out\<rparr>) met1 = (met2, w2)"
    by (cases "EndMigration (w1\<lparr>cout := out\<rparr>) met1")
  then have w2: "cout w2 = out" "files w2 = files w" "cerr w2 = cerr w" and m2: "stats met2 = stats met1"
    using w1 by (auto simp: EndMigration_def now_def)
  have "(r, vm', ms', w') = (r1, vm1, ms\<lparr>transport_state := t, service_metrics := met2\<rparr>, w2)"
    using assms p s w1 sw e by (simp add: PreCopyMigrate_def)
  then show "precopy_rounds 2 vm (cout w) = Inr (vm', cout w')"
    and "(r, transport_state ms') =
           SendWithRetry (transport ms) target (Serialize (vm_Snapshot vm')) (transport_state ms)"
    and "stats (service_metrics ms') = stats (service_metrics ms)" and "transport ms' = transport ms"
    and "files w' = files w" and "cerr w' = cerr w"
    using p sw w2 m1 m2 by simp_all
qed

lemma PreCopyMigrate_ok:
  assumes "PreCopyMigrate vm target ms w = Inr (r, vm', ms', w')" and "ok_vm vm"
  shows "ok_vm vm' \<and> config vm' = config vm \<and> program vm' = program vm"
  using ok_vm_precopy [OF PreCopyMigrate_Inr(1) [OF assms(1)] assms(2)] .

text \<open>
  The receiving side. Into a snapshot that carries the page table of the sender, a packet restores
  a machine that a guest cannot tell from the one that was sent; into an empty snapshot it restores
  the processor and the bytes, but no page is mapped.
\<close>

lemma Deserialize_vm:
  assumes "fits_packet (vm_Snapshot vm)" and "wf_vm vm" and "wf_cpu (cpu t)"
  shows "Deserialize (Serialize (vm_Snapshot vm)) t = Inr (Inr (), (vm_Snapshot vm)\<lparr>pageTable := pageTable t\<rparr>)"
  using Deserialize_Serialize [OF assms(1), of t] assms(2,3)
  by (simp add: wf_vm_def wf_cpu_def vm_Snapshot_def)

lemma resume_with_page_table:
  assumes "ok_vm vm" and "\<not> is_done (status vm)" and "fits_packet (vm_Snapshot vm)"
    and "config vm0 = config vm" and "program vm0 = program vm"
    and "wf_cpu (cpu t)" and "pageTable t = pages (memory vm)"
  shows "\<exists>s. Deserialize (Serialize (vm_Snapshot vm)) t = Inr (Inr (), s) \<and>
             same_result (RunForSlice n (Restore s vm0) out) (RunForSlice n vm out)"
proof -
  have wf: "wf_vm vm"
    using assms(1) by (simp add: ok_vm_def)
  have s: "(vm_Snapshot vm)\<lparr>pageTable := pageTable t\<rparr> = vm_Snapshot vm"
    using assms(7) by (simp add: vm_Snapshot_def)
  have "same_result (RunForSlice n (Restore (vm_Snapshot vm) vm0) out)
      (RunForSlice n (vm\<lparr>status := Ready\<rparr>) out)"
    by (rule sim_RunForSlice) (rule sim_Restore [OF assms(1,2,4,5)])
  then show ?thesis
    using Deserialize_vm [OF assms(3) wf assms(6)] s RunForSlice_status [OF _ assms(2), of Ready]
    by simp
qed

lemma walk_read_unmapped: "pages m = Map.empty \<Longrightarrow> walk_read m a = Inl page_fault"
  by (simp add: walk_read_def page_walk_def)

lemma resume_without_page_table:
  assumes "fits_packet (vm_Snapshot vm)" and "wf_vm vm"
  obtains s where "Deserialize (Serialize (vm_Snapshot vm)) VmSnapshot_init = Inr (Inr (), s)"
    and "vcpu (Restore s vm0) = vcpu vm" and "bytes (memory (Restore s vm0)) = bytes (memory vm)"
    and "wf_vm (Restore s vm0)" and "\<And>a. walk_read (memory (Restore s vm0)) a = Inl page_fault"
proof
  show "Deserialize (Serialize (vm_Snapshot vm)) VmSnapshot_init =
      Inr (Inr (), (vm_Snapshot vm)\<lparr>pageTable := Map.empty\<rparr>)"
    using Deserialize_vm [OF assms, of VmSnapshot_init] by (simp add: VmSnapshot_init_def)
  show "wf_vm (Restore ((vm_Snapshot vm)\<lparr>pageTable := Map.empty\<rparr>) vm0)"
    using assms(2) by (intro wf_vm_Restore) (simp add: vm_Snapshot_def wf_vm_def)
  show "walk_read (memory (Restore ((vm_Snapshot vm)\<lparr>pageTable := Map.empty\<rparr>) vm0)) a = Inl page_fault" for a
    by (rule walk_read_unmapped) (simp add: Restore_def RestorePageTable_def)
qed (simp_all add: Restore_def vm_Snapshot_def RestorePageTable_def)

end
