(* ===== verification/Schedulers.thy ===== *)
theory Schedulers
  imports VMM_Types
begin

text \<open>
  The scheduling policies: \<open>include/scheduler/scheduler.hpp\<close> and \<open>src/scheduler/\<close>. Indices and
  queue entries are \<open>std::size_t\<close> values below the number of machines, whose sums cannot wrap,
  so they are \<open>nat\<close>; a \<open>std::deque\<close> is a list with its front first. \<open>PickNext\<close> returns the
  index and the scheduler's next state.
\<close>

section \<open>The code\<close>

subsection \<open>Round robin\<close>

definition runnable :: "VmStatus \<Rightarrow> bool" where
  "runnable s \<longleftrightarrow> s = Ready \<or> s = Running \<or> s = Blocked"

definition RoundRobin_PickNext :: "nat \<Rightarrow> VmStatus list \<Rightarrow> int list \<Rightarrow> nat \<times> nat" where
  "RoundRobin_PickNext cursor statuses priorities =
     (if statuses = [] then (0, cursor)
      else let n = length statuses
           in case find (\<lambda>i. runnable (statuses ! ((cursor + i) mod n))) [0..<n] of
                Some i \<Rightarrow> let candidate = (cursor + i) mod n in (candidate, (candidate + 1) mod n)
              | None \<Rightarrow> (0, cursor))"

subsection \<open>Priority\<close>

definition priority_step :: "VmStatus list \<Rightarrow> int list \<Rightarrow> int \<times> nat \<Rightarrow> nat \<Rightarrow> int \<times> nat" where
  "priority_step statuses priorities best i =
     (if statuses ! i = Halted \<or> statuses ! i = Faulted then best
      else if i < length priorities \<and> priorities ! i > fst best then (priorities ! i, i)
      else best)"

definition Priority_PickNext :: "unit \<Rightarrow> VmStatus list \<Rightarrow> int list \<Rightarrow> nat \<times> unit" where
  "Priority_PickNext u statuses priorities =
     (snd (foldl (priority_step statuses priorities) (- 1000000, 0) [0..<length statuses]), ())"

subsection \<open>Multi-level feedback queue\<close>

record MlfqScheduler =
  initialized :: bool
  high :: "nat list"
  mid :: "nat list"
  low :: "nat list"

definition MlfqScheduler_init :: MlfqScheduler where
  "MlfqScheduler_init = \<lparr>initialized = False, high = [], mid = [], low = []\<rparr>"

definition RebuildQueues :: "nat \<Rightarrow> MlfqScheduler" where
  "RebuildQueues vmCount = \<lparr>initialized = True, high = [0..<vmCount], mid = [], low = []\<rparr>"

definition NotifyRan :: "nat \<Rightarrow> MlfqScheduler \<Rightarrow> MlfqScheduler" where
  "NotifyRan vmIndex q = q\<lparr>low := low q @ [vmIndex]\<rparr>"

fun pickFromQueue :: "VmStatus list \<Rightarrow> nat list \<Rightarrow> nat \<times> nat list" where
  "pickFromQueue statuses [] = (if statuses = [] then 0 else length statuses, [])"
| "pickFromQueue statuses (candidate # q) =
     (if candidate < length statuses \<and> statuses ! candidate \<noteq> Halted \<and> statuses ! candidate \<noteq> Faulted
      then (candidate, q) else pickFromQueue statuses q)"

definition Mlfq_PickNext :: "MlfqScheduler \<Rightarrow> VmStatus list \<Rightarrow> int list \<Rightarrow> nat \<times> MlfqScheduler" where
  "Mlfq_PickNext q0 statuses priorities =
     (let n = length statuses;
          q = (if initialized q0 then q0 else RebuildQueues n);
          (idx, high') = pickFromQueue statuses (high q); q1 = q\<lparr>high := high'\<rparr>
      in if idx < n then (idx, q1\<lparr>mid := mid q1 @ [idx]\<rparr>)
         else let (idx, mid') = pickFromQueue statuses (mid q1); q2 = q1\<lparr>mid := mid'\<rparr>
         in if idx < n then (idx, q2\<lparr>low := low q2 @ [idx]\<rparr>)
         else let (idx, low') = pickFromQueue statuses (low q2); q3 = q2\<lparr>low := low'\<rparr>
         in if idx < n then (idx, q3\<lparr>high := high q3 @ [idx]\<rparr>)
         else (0, RebuildQueues n))"

section \<open>The contract of a scheduler\<close>

text \<open>The machines still to run, and a later vector of statuses: no machine that is done comes back.\<close>

definition live :: "VmStatus list \<Rightarrow> nat \<Rightarrow> bool" where
  "live st i \<longleftrightarrow> i < length st \<and> \<not> is_done (st ! i)"

definition later :: "VmStatus list \<Rightarrow> VmStatus list \<Rightarrow> bool" where
  "later st st' \<longleftrightarrow> list_all2 (\<le>) st st'"

lemma later_live: "later st st' \<longleftrightarrow> length st' = length st \<and> (\<forall>i. live st' i \<longrightarrow> live st i)"
  by (auto simp: later_def list_all2_conv_all_nth less_eq_VmStatus_def live_def)

lemma later_refl [simp]: "later st st"
  by (simp add: later_def list_all2_refl)

lemma later_trans: "later a b \<Longrightarrow> later b c \<Longrightarrow> later a c"
  unfolding later_def by (rule list_all2_trans [where ?P1.0 = "(\<le>)"]) (rule order_trans)

lemma later_update: "live st i \<Longrightarrow> later st (st[i := s])"
  by (auto simp: later_live live_def nth_list_update)

lemma runnable_iff: "runnable s \<longleftrightarrow> \<not> is_done s"
  by (cases s) (simp_all add: runnable_def)

text \<open>The statuses seen by a run of a scheduler, and the run: its state and its choice at each round.\<close>

fun sched_state ::
  "('s \<Rightarrow> VmStatus list \<Rightarrow> int list \<Rightarrow> nat \<times> 's) \<Rightarrow> 's \<Rightarrow> (nat \<Rightarrow> VmStatus list) \<Rightarrow> int list \<Rightarrow> nat \<Rightarrow> 's" where
  "sched_state pick s st pr 0 = s"
| "sched_state pick s st pr (Suc k) = snd (pick (sched_state pick s st pr k) (st k) pr)"

definition pick_at ::
  "('s \<Rightarrow> VmStatus list \<Rightarrow> int list \<Rightarrow> nat \<times> 's) \<Rightarrow> 's \<Rightarrow> (nat \<Rightarrow> VmStatus list) \<Rightarrow> int list \<Rightarrow> nat \<Rightarrow> nat" where
  "pick_at pick s st pr k = fst (pick (sched_state pick s st pr k) (st k) pr)"

text \<open>
  What the hypervisor relies on: with a live machine around, the scheduler picks a live one, and
  its own invariant survives the pick and whatever the machines do until the next one.
\<close>

locale scheduler =
  fixes pick :: "'s \<Rightarrow> VmStatus list \<Rightarrow> int list \<Rightarrow> nat \<times> 's"
    and sinv :: "'s \<Rightarrow> VmStatus list \<Rightarrow> int list \<Rightarrow> bool"
  assumes picks_live: "sinv s st pr \<Longrightarrow> length pr = length st \<Longrightarrow> live st i \<Longrightarrow> live st (fst (pick s st pr))"
    and keeps_inv: "sinv s st pr \<Longrightarrow> length pr = length st \<Longrightarrow> live st i \<Longrightarrow> later st st' \<Longrightarrow>
      sinv (snd (pick s st pr)) st' pr"
begin

lemma run_inv:
  assumes "sinv s (st 0) pr" and "length pr = length (st 0)"
    and "\<And>k. later (st k) (st (Suc k))" and "\<And>j. j < k \<Longrightarrow> live (st j) i"
  shows "sinv (sched_state pick s st pr k) (st k) pr \<and> length pr = length (st k)"
  using assms(4)
proof (induction k)
  case 0
  then show ?case using assms(1,2) by simp
next
  case (Suc k)
  then have "sinv (sched_state pick s st pr k) (st k) pr \<and> length pr = length (st k)"
    by simp
  then show ?case
    using keeps_inv [OF _ _ _ assms(3)] Suc.prems [of k] assms(3) [of k]
    by (auto simp: later_live)
qed

lemma run_picks_live:
  assumes "sinv s (st 0) pr" and "length pr = length (st 0)"
    and "\<And>k. later (st k) (st (Suc k))" and "\<And>j. j \<le> k \<Longrightarrow> live (st j) i"
  shows "live (st k) (pick_at pick s st pr k)"
proof -
  have l: "live (st k) i" using assms(4) by simp
  then show ?thesis
    using run_inv [OF assms(1,2,3), of k i] picks_live [OF _ _ l] assms(4) by (simp add: pick_at_def)
qed

end

text \<open>
  A fair scheduler has a rank that bounds how long a live machine waits: every pick of another
  machine lowers it.
\<close>

locale fair_scheduler = scheduler pick sinv
  for pick :: "'s \<Rightarrow> VmStatus list \<Rightarrow> int list \<Rightarrow> nat \<times> 's" and sinv +
  fixes rank :: "'s \<Rightarrow> nat \<Rightarrow> nat \<Rightarrow> nat"
  assumes rank_drops: "sinv s st pr \<Longrightarrow> length pr = length st \<Longrightarrow> live st i \<Longrightarrow>
    fst (pick s st pr) \<noteq> i \<Longrightarrow> rank (snd (pick s st pr)) (length st) i < rank s (length st) i"
begin

lemma waits_at_most_rank:
  assumes "sinv s (st 0) pr" and "length pr = length (st 0)"
    and "\<And>k. later (st k) (st (Suc k))" and "\<And>k. k \<le> rank s (length (st 0)) i \<Longrightarrow> live (st k) i"
  shows "\<exists>k \<le> rank s (length (st 0)) i. pick_at pick s st pr k = i"
proof (rule ccontr)
  let ?n = "length (st 0)"
  assume "\<not> ?thesis"
  then have other: "pick_at pick s st pr k \<noteq> i" if "k \<le> rank s ?n i" for k
    using that by auto
  have "rank (sched_state pick s st pr k) ?n i + k \<le> rank s ?n i" if "k \<le> Suc (rank s ?n i)" for k
    using that
  proof (induction k)
    case (Suc k)
    then have inv: "sinv (sched_state pick s st pr k) (st k) pr \<and> length pr = length (st k)"
      using run_inv [OF assms(1,2,3), of k i] assms(4) by simp
    have "rank (sched_state pick s st pr (Suc k)) ?n i < rank (sched_state pick s st pr k) ?n i"
      using rank_drops [of "sched_state pick s st pr k" "st k" pr i] inv assms(2,4) other [of k] Suc.prems
      by (simp add: pick_at_def)
    then show ?case
      using Suc by simp
  qed simp
  then have "rank (sched_state pick s st pr (Suc (rank s ?n i))) ?n i + Suc (rank s ?n i) \<le> rank s ?n i"
    by blast
  then show False by simp
qed

end

section \<open>Round robin\<close>

definition rr_rank :: "nat \<Rightarrow> nat \<Rightarrow> nat \<Rightarrow> nat" where
  "rr_rank cursor n i = (i + n - cursor mod n) mod n"

lemma rr_rank_less: "0 < n \<Longrightarrow> rr_rank c n i < n"
  by (simp add: rr_rank_def)

lemma rr_rank_reaches:
  assumes "i < n"
  shows "(c + rr_rank c n i) mod n = i"
proof -
  have "(c + rr_rank c n i) mod n = (c mod n + (i + n - c mod n)) mod n"
    by (simp add: rr_rank_def mod_simps)
  also have "c mod n + (i + n - c mod n) = i + n"
    using assms mod_less_divisor [of n c] by linarith
  finally show ?thesis using assms by simp
qed

lemma rr_rank_unique:
  assumes "d < n" and "(c + d) mod n = i"
  shows "rr_rank c n i = d"
proof -
  have r: "c mod n < n" and i: "i = (c mod n + d) mod n"
    using assms by (simp_all add: mod_simps)
  show ?thesis
  proof (cases "c mod n + d < n")
    case True
    then have "i + n - c mod n = d + n"
      using i by simp
    then show ?thesis
      using assms(1) by (simp add: rr_rank_def)
  next
    case False
    then have "i = c mod n + d - n"
      using i r assms(1) by (simp add: le_mod_geq)
    then have "i + n - c mod n = d"
      using False by linarith
    then show ?thesis
      using assms(1) by (simp add: rr_rank_def)
  qed
qed

text \<open>With a live machine, the pick is the first live one at or after the cursor.\<close>

lemma RoundRobin_pick:
  assumes "live st i"
  obtains j where "j \<le> rr_rank c (length st) i" and "live st ((c + j) mod length st)"
    and "RoundRobin_PickNext c st pr =
           ((c + j) mod length st, ((c + j) mod length st + 1) mod length st)"
proof -
  let ?n = "length st" and ?P = "\<lambda>j. runnable (st ! ((c + j) mod length st))"
  have n: "0 < ?n" "st \<noteq> []" and i: "i < ?n"
    using assms by (auto simp: live_def)
  have d: "rr_rank c ?n i < ?n" "?P (rr_rank c ?n i)"
    using assms n by (simp_all add: rr_rank_less rr_rank_reaches [OF i] runnable_iff live_def)
  then have "find ?P [0..<?n] \<noteq> None"
    by (auto simp: find_None_iff)
  then obtain j where f: "find ?P [0..<?n] = Some j"
    by auto
  then have j: "j < ?n" "?P j" "\<And>k. k < j \<Longrightarrow> \<not> ?P k"
    by (auto simp: find_Some_iff)
  show thesis
  proof (rule that [of j])
    show "j \<le> rr_rank c ?n i"
      using j(3) d(2) not_le_imp_less by blast
    show "live st ((c + j) mod ?n)"
      using j(2) n by (simp add: live_def runnable_iff)
    show "RoundRobin_PickNext c st pr = ((c + j) mod ?n, ((c + j) mod ?n + 1) mod ?n)"
      using n f by (simp add: RoundRobin_PickNext_def Let_def)
  qed
qed

interpretation rr: fair_scheduler RoundRobin_PickNext "\<lambda>_ _ _. True" rr_rank
proof
  show "live st (fst (RoundRobin_PickNext c st pr))" if "live st i" for c st pr i
    using that by (rule RoundRobin_pick [of st i c pr]) simp
  show "rr_rank (snd (RoundRobin_PickNext c st pr)) (length st) i < rr_rank c (length st) i"
    if l: "live st i" and ne: "fst (RoundRobin_PickNext c st pr) \<noteq> i" for c st pr i
  proof -
    let ?n = "length st"
    obtain j where j: "j \<le> rr_rank c ?n i" and p: "RoundRobin_PickNext c st pr =
        ((c + j) mod ?n, ((c + j) mod ?n + 1) mod ?n)"
      using l by (rule RoundRobin_pick)
    have i: "i < ?n" using l by (simp add: live_def)
    have "j \<noteq> rr_rank c ?n i"
      using ne p rr_rank_reaches [OF i, of c] by auto
    with j have d: "j < rr_rank c ?n i" by simp
    then have "(c + j + 1 + (rr_rank c ?n i - j - 1)) mod ?n = i"
      using rr_rank_reaches [OF i, of c] by simp
    then have "rr_rank (((c + j) mod ?n + 1) mod ?n) ?n i = rr_rank c ?n i - j - 1"
      using rr_rank_less [of ?n c i] i by (intro rr_rank_unique) (linarith, simp add: mod_simps)
    with d p show ?thesis by simp
  qed
qed simp

section \<open>Priority\<close>

text \<open>The best candidate among the first machines: a live one of greatest priority, the first such.\<close>

definition best_of :: "VmStatus list \<Rightarrow> int list \<Rightarrow> nat \<Rightarrow> nat \<Rightarrow> bool" where
  "best_of st pr k b \<longleftrightarrow>
     b < k \<and> live st b \<and> (\<forall>j < k. live st j \<longrightarrow> pr ! j \<le> pr ! b \<and> (j < b \<longrightarrow> pr ! j < pr ! b))"

definition above_floor :: "VmStatus list \<Rightarrow> int list \<Rightarrow> bool" where
  "above_floor st pr \<longleftrightarrow> (\<forall>i. live st i \<longrightarrow> pr ! i > - 1000000)"

lemma best_of_Suc_dead: "\<not> live st k \<Longrightarrow> best_of st pr (Suc k) b \<longleftrightarrow> best_of st pr k b"
  by (auto simp: best_of_def less_Suc_eq)

lemma priority_scan:
  assumes "above_floor st pr" and "length pr = length st" and "k \<le> length st"
  shows "(case foldl (priority_step st pr) (- 1000000, 0) [0..<k] of (p, b) \<Rightarrow>
            if \<exists>j < k. live st j then best_of st pr k b \<and> p = pr ! b
            else p = - 1000000 \<and> b = 0)"
  using assms(3)
proof (induction k)
  case 0
  then show ?case by simp
next
  case (Suc k)
  obtain p b where f: "foldl (priority_step st pr) (- 1000000, 0) [0..<k] = (p, b)"
    by (cases "foldl (priority_step st pr) (- 1000000, 0) [0..<k]")
  have k: "k < length st" using Suc.prems by simp
  have IH: "if \<exists>j < k. live st j then best_of st pr k b \<and> p = pr ! b else p = - 1000000 \<and> b = 0"
    using Suc f by simp
  show ?case
  proof (cases "live st k")
    case False
    then have "priority_step st pr (p, b) k = (p, b)"
      using k by (auto simp: priority_step_def live_def is_done_def)
    moreover have "(\<exists>j < Suc k. live st j) \<longleftrightarrow> (\<exists>j < k. live st j)"
      using False by (auto simp: less_Suc_eq)
    ultimately show ?thesis
      using IH f False by (simp add: best_of_Suc_dead)
  next
    case True
    then have pk: "pr ! k > - 1000000" and
      step: "priority_step st pr (p, b) k = (if pr ! k > p then (pr ! k, k) else (p, b))"
      using assms(1,2) k by (auto simp: above_floor_def priority_step_def live_def is_done_def)
    show ?thesis
    proof (cases "\<exists>j < k. live st j")
      case True
      then have "best_of st pr k b" and "p = pr ! b"
        using IH by simp_all
      moreover from this(1) have "best_of st pr (Suc k) (if pr ! k > pr ! b then k else b)"
        using \<open>live st k\<close> by (auto simp: best_of_def less_Suc_eq)
      ultimately show ?thesis
        using f step \<open>live st k\<close> by (auto simp: less_Suc_eq)
    next
      case False
      then show ?thesis
        using IH f step pk \<open>live st k\<close> by (auto simp: best_of_def less_Suc_eq)
    qed
  qed
qed

lemma Priority_pick:
  assumes "above_floor st pr" and "length pr = length st" and "live st i"
  shows "best_of st pr (length st) (fst (Priority_PickNext u st pr))"
proof -
  have "\<exists>j < length st. live st j"
    using assms(3) by (auto simp: live_def)
  then show ?thesis
    using priority_scan [OF assms(1,2) order_refl]
    by (auto simp: Priority_PickNext_def split: prod.splits)
qed

interpretation prio: scheduler Priority_PickNext "\<lambda>_. above_floor"
proof
  show "live st (fst (Priority_PickNext u st pr))"
    if "above_floor st pr" "length pr = length st" "live st i" for u st pr i
    using Priority_pick [OF that, of u] by (simp add: best_of_def)
  show "above_floor st' pr" if "above_floor st pr" "later st st'" for st pr st'
    using that by (auto simp: above_floor_def later_live)
qed

section \<open>Multi-level feedback queue\<close>

lemma pickFromQueue_live:
  assumes "\<exists>x \<in> set q. live st x"
  obtains ds c ys where "q = ds @ c # ys" and "live st c" and "\<forall>d \<in> set ds. \<not> live st d"
    and "pickFromQueue st q = (c, ys)"
proof -
  have "\<exists>ds c ys. q = ds @ c # ys \<and> live st c \<and> (\<forall>d \<in> set ds. \<not> live st d) \<and>
      pickFromQueue st q = (c, ys)"
    using assms
  proof (induction q)
    case (Cons x q)
    show ?case
    proof (cases "live st x")
      case True
      then show ?thesis
        by (intro exI [of _ "[]"]) (auto simp: live_def is_done_def)
    next
      case False
      then obtain ds c ys where "q = ds @ c # ys" "live st c" "\<forall>d \<in> set ds. \<not> live st d"
        "pickFromQueue st q = (c, ys)" using Cons by auto
      then show ?thesis
        using False by (intro exI [of _ "x # ds"]) (auto simp: live_def is_done_def)
    qed
  qed simp
  with that show thesis by blast
qed

lemma pickFromQueue_dead:
  "\<forall>x \<in> set q. \<not> live st x \<Longrightarrow> pickFromQueue st q = (length st, [])"
  by (induction q) (auto simp: live_def is_done_def)

definition ready_queues :: "MlfqScheduler \<Rightarrow> nat \<Rightarrow> MlfqScheduler" where
  "ready_queues q n = (if initialized q then q else RebuildQueues n)"

definition queued :: "MlfqScheduler \<Rightarrow> nat set" where
  "queued q = set (high q) \<union> set (mid q) \<union> set (low q)"

text \<open>The invariant: once initialised, every live machine is in one of the queues.\<close>

definition mlfq_inv :: "MlfqScheduler \<Rightarrow> VmStatus list \<Rightarrow> int list \<Rightarrow> bool" where
  "mlfq_inv q st pr \<longleftrightarrow> (initialized q \<longrightarrow> (\<forall>i. live st i \<longrightarrow> i \<in> queued q))"

lemma queued_ready: "mlfq_inv q st pr \<Longrightarrow> live st i \<Longrightarrow> i \<in> queued (ready_queues q (length st))"
  by (auto simp: mlfq_inv_def ready_queues_def queued_def RebuildQueues_def live_def)

lemma Mlfq_pick:
  assumes "mlfq_inv q0 st pr" and "live st i"
  defines "q \<equiv> ready_queues q0 (length st)"
  obtains (high) ds c ys where "high q = ds @ c # ys" and "\<forall>d \<in> set ds. \<not> live st d" and "live st c"
      and "Mlfq_PickNext q0 st pr = (c, q\<lparr>high := ys, mid := mid q @ [c]\<rparr>)"
  | (mid) ds c ys where "\<forall>d \<in> set (high q). \<not> live st d" and "mid q = ds @ c # ys"
      and "\<forall>d \<in> set ds. \<not> live st d" and "live st c"
      and "Mlfq_PickNext q0 st pr = (c, q\<lparr>high := [], mid := ys, low := low q @ [c]\<rparr>)"
  | (low) ds c ys where "\<forall>d \<in> set (high q @ mid q). \<not> live st d" and "low q = ds @ c # ys"
      and "\<forall>d \<in> set ds. \<not> live st d" and "live st c"
      and "Mlfq_PickNext q0 st pr = (c, q\<lparr>high := [c], mid := [], low := ys\<rparr>)"
proof -
  have q: "(if initialized q0 then q0 else RebuildQueues (length st)) = q"
    by (simp add: q_def ready_queues_def)
  note unfold = Mlfq_PickNext_def q Let_def
  consider "\<exists>x \<in> set (high q). live st x"
    | "\<forall>x \<in> set (high q). \<not> live st x" "\<exists>x \<in> set (mid q). live st x"
    | "\<forall>x \<in> set (high q). \<not> live st x" "\<forall>x \<in> set (mid q). \<not> live st x" "\<exists>x \<in> set (low q). live st x"
    using queued_ready [OF assms(1,2)] assms(2) by (auto simp: queued_def q_def)
  then show thesis
  proof cases
    case 1
    then obtain ds c ys where h: "high q = ds @ c # ys" "live st c" "\<forall>d \<in> set ds. \<not> live st d"
      "pickFromQueue st (high q) = (c, ys)" by (rule pickFromQueue_live)
    then show thesis
      using that(1) by (simp add: unfold live_def)
  next
    case 2
    from 2(2) obtain ds c ys where h: "mid q = ds @ c # ys" "live st c" "\<forall>d \<in> set ds. \<not> live st d"
      "pickFromQueue st (mid q) = (c, ys)" by (rule pickFromQueue_live)
    then show thesis
      using that(2) 2 pickFromQueue_dead [OF 2(1)] by (simp add: unfold live_def)
  next
    case 3
    from 3(3) obtain ds c ys where h: "low q = ds @ c # ys" "live st c" "\<forall>d \<in> set ds. \<not> live st d"
      "pickFromQueue st (low q) = (c, ys)" by (rule pickFromQueue_live)
    then show thesis
      using that(3) 3 pickFromQueue_dead [OF 3(1)] pickFromQueue_dead [OF 3(2)]
      by (simp add: unfold live_def ball_Un)
  qed
qed

text \<open>
  How many picks of other machines can precede the next pick of a machine: the machines before it
  in its queue, the queues that are served first, and for the low queue the two extra rounds each
  machine in front makes through the high and the middle queue.
\<close>

definition place :: "nat list \<Rightarrow> nat \<Rightarrow> nat" where
  "place xs i = length (takeWhile (\<lambda>x. x \<noteq> i) xs)"

definition mlfq_rank :: "MlfqScheduler \<Rightarrow> nat \<Rightarrow> nat \<Rightarrow> nat" where
  "mlfq_rank q0 n i =
     (let q = ready_queues q0 n
      in if i \<in> set (high q) then place (high q) i
         else if i \<in> set (mid q) then length (high q) + place (mid q) i
         else 2 * length (high q) + length (mid q) + 3 * place (low q) i)"

lemma place_snoc: "i \<in> set xs \<Longrightarrow> place (xs @ ys) i = place xs i"
  by (auto simp: place_def takeWhile_append1)

lemma place_skip:
  "i \<in> set (ds @ c # ys) \<Longrightarrow> i \<notin> set ds \<Longrightarrow> c \<noteq> i \<Longrightarrow> place ys i < place (ds @ c # ys) i"
  by (induction ds) (auto simp: place_def)

lemma live_not_dead: "live st i \<Longrightarrow> \<forall>d \<in> set ds. \<not> live st d \<Longrightarrow> i \<notin> set ds"
  by auto

lemma mlfq_pick_live:
  "mlfq_inv q st pr \<Longrightarrow> live st i \<Longrightarrow> live st (fst (Mlfq_PickNext q st pr))"
  by (erule (1) Mlfq_pick) simp_all

lemma ready_queues_initialized [simp]: "initialized (ready_queues q n)"
  by (simp add: ready_queues_def RebuildQueues_def)

lemma mlfq_keeps_inv:
  assumes "mlfq_inv q0 st pr" and "live st j" and "later st st'"
  shows "mlfq_inv (snd (Mlfq_PickNext q0 st pr)) st' pr"
proof -
  let ?q = "ready_queues q0 (length st)"
  have all: "i \<in> queued ?q" if "live st i" for i
    using queued_ready [OF assms(1) that] .
  have "i \<in> queued (snd (Mlfq_PickNext q0 st pr))" if l: "live st i" for i
    using assms(1,2) all [OF l] live_not_dead [OF l]
    by (cases rule: Mlfq_pick) (auto simp: queued_def)
  then show ?thesis
    using assms(3) by (simp add: mlfq_inv_def later_live)
qed

lemma mlfq_rank_initialized:
  "initialized q \<Longrightarrow> mlfq_rank q n i =
     (if i \<in> set (high q) then place (high q) i
      else if i \<in> set (mid q) then length (high q) + place (mid q) i
      else 2 * length (high q) + length (mid q) + 3 * place (low q) i)"
  by (simp add: mlfq_rank_def ready_queues_def Let_def)

lemma mlfq_rank_ready: "mlfq_rank q n i = mlfq_rank (ready_queues q n) n i"
  by (simp add: mlfq_rank_def ready_queues_def RebuildQueues_def)

lemma mlfq_rank_drops:
  assumes "mlfq_inv q0 st pr" and l: "live st i" and "fst (Mlfq_PickNext q0 st pr) \<noteq> i"
  shows "mlfq_rank (snd (Mlfq_PickNext q0 st pr)) (length st) i < mlfq_rank q0 (length st) i"
proof -
  let ?q = "ready_queues q0 (length st)"
  have q: "i \<in> queued ?q"
    using queued_ready [OF assms(1) l] .
  note dead = live_not_dead [OF l]
  from assms(1) l show ?thesis
  proof (cases rule: Mlfq_pick)
    case (high ds c ys)
    then have "c \<noteq> i" and "i \<notin> set ds" using assms(3) dead by auto
    then show ?thesis
      using high q place_skip [of i ds c ys] place_snoc [of i "mid ?q" "[c]"]
      by (auto simp: mlfq_rank_ready [of q0] mlfq_rank_initialized queued_def)
  next
    case (mid ds c ys)
    then have "c \<noteq> i" and "i \<notin> set ds" and "i \<notin> set (high ?q)" using assms(3) dead by auto
    then show ?thesis
      using mid q place_skip [of i ds c ys] place_snoc [of i "low ?q" "[c]"]
      by (auto simp: mlfq_rank_ready [of q0] mlfq_rank_initialized queued_def)
  next
    case (low ds c ys)
    then have "c \<noteq> i" and "i \<notin> set ds" and "i \<notin> set (high ?q)" and "i \<notin> set (mid ?q)"
      using assms(3) dead by auto
    then show ?thesis
      using low q place_skip [of i ds c ys]
      by (auto simp: mlfq_rank_ready [of q0] mlfq_rank_initialized queued_def)
  qed
qed

interpretation mlfq: fair_scheduler Mlfq_PickNext mlfq_inv mlfq_rank
  by unfold_locales (auto intro: mlfq_pick_live mlfq_keeps_inv mlfq_rank_drops)

lemma mlfq_inv_NotifyRan: "initialized q \<Longrightarrow> mlfq_inv q st pr \<Longrightarrow> mlfq_inv (NotifyRan i q) st pr"
  by (auto simp: mlfq_inv_def NotifyRan_def queued_def)

text \<open>A machine waits for at most three rounds through the queues.\<close>

lemma place_le: "place xs i \<le> length xs"
  by (simp add: place_def length_takeWhile_le)

lemma mlfq_rank_bound:
  "mlfq_rank q n i \<le> 3 * (length (high (ready_queues q n)) + length (mid (ready_queues q n))
                             + length (low (ready_queues q n)))"
  using place_le [of "high (ready_queues q n)" i] place_le [of "mid (ready_queues q n)" i]
    place_le [of "low (ready_queues q n)" i]
  by (auto simp: mlfq_rank_def Let_def)

text \<open>For any course of the statuses: a machine that stays live is picked within the bound.\<close>

lemma round_robin_fair:
  assumes "st 0 \<noteq> []" and "length pr = length (st 0)" and "\<And>k. later (st k) (st (Suc k))"
    and "\<And>k. k < length (st 0) \<Longrightarrow> live (st k) i"
  shows "\<exists>k < length (st 0). pick_at RoundRobin_PickNext c st pr k = i"
proof -
  have "rr_rank c (length (st 0)) i < length (st 0)"
    using assms(1) by (simp add: rr_rank_less)
  then show ?thesis
    using rr.waits_at_most_rank [of pr st c i] assms(2-4) by (meson le_less_trans)
qed

lemma mlfq_fair:
  assumes "mlfq_inv q (st 0) pr" and "length pr = length (st 0)"
    and "\<And>k. later (st k) (st (Suc k))" and "\<And>k. live (st k) i"
  shows "\<exists>k \<le> 3 * (length (high (ready_queues q (length (st 0)))) + length (mid (ready_queues q (length (st 0))))
               + length (low (ready_queues q (length (st 0))))). pick_at Mlfq_PickNext q st pr k = i"
  using mlfq.waits_at_most_rank [of q st pr i] mlfq_rank_bound [of q "length (st 0)" i] assms by (meson order_trans)

end
