(* ===== verification/Hypervisor.thy ===== *)
theory Hypervisor
  imports Guest_Execution Migration Schedulers
begin

text \<open>
  The main loop: \<open>include/hypervisor/hypervisor_core.hpp\<close> and
  \<open>src/hypervisor/hypervisor_core.cpp\<close>. The scheduler is held through its one virtual function
  and its state, the migration service by value with what it refers to; the host is passed along.
  The member \<open>snapshotService_\<close> has no state and is never called.
\<close>

section \<open>The code\<close>

record ('s, 't) HypervisorCore =
  vms :: "VirtualMachine list"
  PickNext :: "'s \<Rightarrow> VmStatus list \<Rightarrow> int list \<Rightarrow> nat \<times> 's"
  sched :: 's
  migrationService :: "'t MigrationService"
  metrics :: MetricsTracer

definition HypervisorCore_new ::
  "('s \<Rightarrow> VmStatus list \<Rightarrow> int list \<Rightarrow> nat \<times> 's) \<Rightarrow> 's \<Rightarrow> 't MigrationService \<Rightarrow> ('s, 't) HypervisorCore" where
  "HypervisorCore_new pick s ms =
     \<lparr>vms = [], PickNext = pick, sched = s, migrationService = ms, metrics = MetricsTracer_init\<rparr>"

definition AddVm :: "VirtualMachine \<Rightarrow> ('s, 't) HypervisorCore \<Rightarrow> ('s, 't) HypervisorCore" where
  "AddVm vm h = h\<lparr>vms := vms h @ [vm]\<rparr>"

definition statuses :: "('s, 't) HypervisorCore \<Rightarrow> VmStatus list" where
  "statuses h = map status (vms h)"

definition priorities :: "('s, 't) HypervisorCore \<Rightarrow> int list" where
  "priorities h = map (priority \<circ> config) (vms h)"

definition allDone :: "('s, 't) HypervisorCore \<Rightarrow> bool" where
  "allDone h = list_all (\<lambda>vm. \<not> (status vm \<noteq> Halted \<and> status vm \<noteq> Faulted)) (vms h)"

definition migration_failed_text :: "string \<Rightarrow> string \<Rightarrow> string" where
  "migration_failed_text nm error = ''Migration failed for '' @ nm @ '': '' @ error @ ''\<newline>''"

text \<open>The body of the loop once a machine is chosen.\<close>

definition dispatch ::
  "nat \<Rightarrow> ('s, 't) HypervisorCore \<Rightarrow> World \<Rightarrow> (('s, 't) HypervisorCore \<times> World) cpp" where
  "dispatch idx h w =
     (let vm = vms h ! idx; met = RecordDispatch (name (config vm)) (metrics h)
      in bind_cpp (RunForSlice (execSlice (config vm)) vm (cout w)) (\<lambda>(retired, vm, out).
         let w = w\<lparr>cout := out\<rparr>;
             h = h\<lparr>vms := (vms h)[idx := vm],
                   metrics := RecordInstructions (name (config vm)) (of_nat retired) met\<rparr>
         in case pendingMigrationTarget vm of
              None \<Rightarrow> Inr (h, w)
            | Some target \<Rightarrow>
                bind_cpp (PreCopyMigrate vm target (migrationService h) w) (\<lambda>(r, vm, ms, w).
                let w = (case r of
                           Inl error \<Rightarrow> w\<lparr>cerr := cerr w @ migration_failed_text (name (config vm)) error\<rparr>
                         | Inr _ \<Rightarrow> w)
                in Inr (h\<lparr>vms := (vms h)[idx := ClearMigrationIntent vm], migrationService := ms\<rparr>, w))))"

text \<open>One turn of the loop of \<open>Run\<close>: \<open>None\<close> is its \<open>break\<close>.\<close>

definition Run_round ::
  "('s, 't) HypervisorCore \<Rightarrow> World \<Rightarrow> (('s, 't) HypervisorCore \<times> World) option cpp" where
  "Run_round h w =
     (if allDone h \<or> vms h = [] then Inr None
      else let (idx, s) = PickNext h (sched h) (statuses h) (priorities h); h = h\<lparr>sched := s\<rparr>
           in if length (vms h) \<le> idx then Inr (Some (h, w))
              else if status (vms h ! idx) = Halted \<or> status (vms h ! idx) = Faulted then Inr (Some (h, w))
              else bind_cpp (dispatch idx h w) (\<lambda>r. Inr (Some r)))"

partial_function (option) Run ::
  "('s, 't) HypervisorCore \<Rightarrow> World \<Rightarrow> (('s, 't) HypervisorCore \<times> World) cpp option" where
  "Run h w =
     (case Run_round h w of
        Inl e \<Rightarrow> Some (Inl e)
      | Inr None \<Rightarrow> Some (Inr (h, w))
      | Inr (Some (h', w')) \<Rightarrow> Run h' w')"

section \<open>The rounds as a step relation\<close>

inductive round_step ::
  "('s, 't) HypervisorCore \<times> World \<Rightarrow> ('s, 't) HypervisorCore \<times> World \<Rightarrow> bool" where
  "Run_round h w = Inr (Some s) \<Longrightarrow> round_step (h, w) s"

inductive_cases round_stepE: "round_step (h, w) s"

inductive_simps round_step_iff: "round_step (h, w) s"

lemma Run_step: "Run_round h w = Inr (Some (h', w')) \<Longrightarrow> Run h w = Run h' w'"
  by (subst Run.simps) simp

lemma Run_stop: "Run_round h w = Inr None \<Longrightarrow> Run h w = Some (Inr (h, w))"
  by (subst Run.simps) simp

lemma Run_abort: "Run_round h w = Inl e \<Longrightarrow> Run h w = Some (Inl e)"
  by (subst Run.simps) simp

lemma Run_steps: "round_step\<^sup>*\<^sup>* s s' \<Longrightarrow> Run (fst s) (snd s) = Run (fst s') (snd s')"
proof (induction rule: converse_rtranclp_induct)
  case (step a b)
  then show ?case
    by (cases a; cases b) (auto elim!: round_stepE dest: Run_step)
qed simp

text \<open>A run that returns is a finite sequence of rounds.\<close>

lemma Run_reaches:
  assumes "Run h w = Some r"
  shows "\<exists>h' w'. round_step\<^sup>*\<^sup>* (h, w) (h', w') \<and>
           (Run_round h' w' = Inr None \<and> r = Inr (h', w') \<or> (\<exists>e. Run_round h' w' = Inl e \<and> r = Inl e))"
  using assms
proof (induction rule: Run.raw_induct [rotated, consumes 1, case_names step])
  case (step Run h w r)
  show ?case
  proof (cases "Run_round h w")
    case (Inl e)
    then show ?thesis using step(2) by auto
  next
    case (Inr o')
    show ?thesis
    proof (cases o')
      case None
      then show ?thesis using step(2) Inr by auto
    next
      case (Some s)
      obtain h1 w1 where s: "s = (h1, w1)" by (cases s)
      then have "Run h1 w1 = Some r"
        using step(2) Inr Some by simp
      then obtain h' w' where "round_step\<^sup>*\<^sup>* (h1, w1) (h', w')" and
        "Run_round h' w' = Inr None \<and> r = Inr (h', w') \<or> (\<exists>e. Run_round h' w' = Inl e \<and> r = Inl e)"
        using step(1) by blast
      moreover have "round_step (h, w) (h1, w1)"
        using Inr Some s by (simp add: round_step_iff)
      ultimately show ?thesis
        using converse_rtranclp_into_rtranclp [of round_step "(h, w)" "(h1, w1)" "(h', w')"] by blast
    qed
  qed
qed

text \<open>What every round keeps, any number of rounds keeps.\<close>

lemma rounds_keep:
  assumes "round_step\<^sup>*\<^sup>* (h, w) (h', w')" and "P h w"
    and "\<And>h w h' w'. P h w \<Longrightarrow> Run_round h w = Inr (Some (h', w')) \<Longrightarrow> P h' w'"
  shows "P h' w'"
proof -
  have "P (fst s') (snd s')" if "round_step\<^sup>*\<^sup>* s s'" and "P (fst s) (snd s)" for s s'
    using that
  proof (induction rule: rtranclp_induct)
    case (step a b)
    then show ?case
      using assms(3) by (cases a; cases b) (auto elim!: round_stepE)
  qed
  from this [OF assms(1)] assms(2) show ?thesis by simp
qed

text \<open>An invariant of the rounds holds when the run returns, and one that forbids the end forbids returning.\<close>

lemma Run_invariant:
  assumes "Run h w = Some (Inr (h', w'))" and "P h w"
    and "\<And>h w h' w'. P h w \<Longrightarrow> Run_round h w = Inr (Some (h', w')) \<Longrightarrow> P h' w'"
  shows "P h' w' \<and> Run_round h' w' = Inr None"
proof -
  obtain h1 w1 where "round_step\<^sup>*\<^sup>* (h, w) (h1, w1)" and "Run_round h1 w1 = Inr None" and "h1 = h'" "w1 = w'"
    using Run_reaches [OF assms(1)] by auto
  then show ?thesis
    using rounds_keep [of h w h1 w1 P] assms(2,3) by blast
qed

lemma Run_never_stops:
  assumes "P h w" and "\<And>h w h' w'. P h w \<Longrightarrow> Run_round h w = Inr (Some (h', w')) \<Longrightarrow> P h' w'"
    and "\<And>h w. P h w \<Longrightarrow> Run_round h w \<noteq> Inr None"
  shows "Run h w \<noteq> Some (Inr (h', w'))"
  using Run_invariant [of h w h' w' P] assms by blast

lemma Run_diverges:
  assumes "P h w" and "\<And>h w. P h w \<Longrightarrow> \<exists>h' w'. Run_round h w = Inr (Some (h', w')) \<and> P h' w'"
  shows "Run h w = None"
proof (cases "Run h w")
  case (Some r)
  obtain h1 w1 where "round_step\<^sup>*\<^sup>* (h, w) (h1, w1)"
    and "Run_round h1 w1 = Inr None \<or> (\<exists>e. Run_round h1 w1 = Inl e)"
    using Run_reaches [OF Some] by auto
  moreover have "P h1 w1"
    by (rule rounds_keep [where P = P, OF calculation(1) assms(1)]) (use assms(2) in fastforce)
  ultimately show ?thesis
    using assms(2) [of h1 w1] by auto
qed simp

section \<open>What one round does\<close>

abbreviation pick_of :: "('s, 't) HypervisorCore \<Rightarrow> nat \<times> 's" where
  "pick_of h \<equiv> PickNext h (sched h) (statuses h) (priorities h)"

lemma allDone_iff: "allDone h \<longleftrightarrow> (\<forall>i < length (vms h). is_done (status (vms h ! i)))"
  by (auto simp: allDone_def list_all_length is_done_def)

lemma live_statuses: "live (statuses h) i \<longleftrightarrow> i < length (vms h) \<and> \<not> is_done (status (vms h ! i))"
  by (auto simp: live_def statuses_def)

lemma length_statuses [simp]: "length (statuses h) = length (vms h)" "length (priorities h) = length (vms h)"
  by (simp_all add: statuses_def priorities_def)

lemma not_allDone: "\<not> allDone h \<longleftrightarrow> (\<exists>i. live (statuses h) i)"
  by (auto simp: allDone_iff live_statuses)

text \<open>The two ways in which the body of the loop ends normally.\<close>

lemma dispatchE:
  assumes "dispatch idx h w = Inr (h', w')"
  obtains (stays) k vm out where
      "RunForSlice (execSlice (config (vms h ! idx))) (vms h ! idx) (cout w) = Inr (k, vm, out)"
      and "pendingMigrationTarget vm = None"
      and "h' = h\<lparr>vms := (vms h)[idx := vm], metrics := RecordInstructions (name (config (vms h ! idx)))
             (of_nat k) (RecordDispatch (name (config (vms h ! idx))) (metrics h))\<rparr>"
      and "w' = w\<lparr>cout := out\<rparr>"
  | (migrates) k vm out target r vm2 ms w2 where
      "RunForSlice (execSlice (config (vms h ! idx))) (vms h ! idx) (cout w) = Inr (k, vm, out)"
      and "pendingMigrationTarget vm = Some target"
      and "PreCopyMigrate vm target (migrationService h) (w\<lparr>cout := out\<rparr>) = Inr (r, vm2, ms, w2)"
      and "h' = h\<lparr>metrics := RecordInstructions (name (config (vms h ! idx)))
               (of_nat k) (RecordDispatch (name (config (vms h ! idx))) (metrics h)),
             vms := (vms h)[idx := ClearMigrationIntent vm2], migrationService := ms\<rparr>"
      and "w' = (case r of
             Inl error \<Rightarrow> w2\<lparr>cerr := cerr w2 @ migration_failed_text (name (config vm2)) error\<rparr>
           | Inr _ \<Rightarrow> w2)"
proof -
  obtain k vm out where r: "RunForSlice (execSlice (config (vms h ! idx))) (vms h ! idx) (cout w) = Inr (k, vm, out)"
    using assms by (auto simp: dispatch_def Let_def bind_cpp_eq_Inr)
  have c: "config vm = config (vms h ! idx)"
    by (rule RunForSlice_frame(1) [OF r])
  show thesis
  proof (cases "pendingMigrationTarget vm")
    case None
    with assms r c stays [OF r] show thesis
      by (simp add: dispatch_def Let_def)
  next
    case (Some target)
    with assms r obtain r2 vm2 ms w2 where
      p: "PreCopyMigrate vm target (migrationService h) (w\<lparr>cout := out\<rparr>) = Inr (r2, vm2, ms, w2)"
      by (auto simp: dispatch_def Let_def bind_cpp_eq_Inr)
    with assms r c Some migrates [OF r Some p] show thesis
      by (simp add: dispatch_def Let_def)
  qed
qed

text \<open>A round that is not the last either spins, changing nothing but the scheduler, or dispatches a live machine.\<close>

lemma Run_roundE:
  assumes "Run_round h w = Inr (Some (h', w'))"
  obtains (spins) idx s where "\<not> allDone h" and "pick_of h = (idx, s)" and "\<not> live (statuses h) idx"
      and "h' = h\<lparr>sched := s\<rparr>" and "w' = w"
  | (runs) idx s where "pick_of h = (idx, s)" and "live (statuses h) idx"
      and "dispatch idx (h\<lparr>sched := s\<rparr>) w = Inr (h', w')"
proof -
  obtain idx s where p: "pick_of h = (idx, s)"
    by (cases "pick_of h")
  have nd: "\<not> allDone h" "vms h \<noteq> []"
    using assms by (auto simp: Run_round_def)
  show thesis
  proof (cases "live (statuses h) idx")
    case True
    then show thesis
      using assms nd p that(2) [OF p] by (auto simp: Run_round_def Let_def bind_cpp_eq_Inr live_statuses is_done_def)
  next
    case False
    then show thesis
      using assms nd p that(1) [OF nd(1) p] by (auto simp: Run_round_def Let_def live_statuses is_done_def split: if_splits)
  qed
qed

end
