(* ===== verification/Hypervisor_Runs.thy ===== *)
theory Hypervisor_Runs
  imports Hypervisor
begin

text \<open>
  What a run of the hypervisor does: the change of one machine in a round as a relation, the
  invariants it keeps, the end state of every guest, the metrics, when the loop of \<open>Run\<close> ends and
  when it does not.
\<close>

section \<open>How a round changes a machine\<close>

text \<open>A slice, and a slice followed by a migration.\<close>

inductive vm_step :: "VirtualMachine \<Rightarrow> VirtualMachine \<Rightarrow> bool" where
  slice: "RunForSlice (execSlice (config vm)) vm out = Inr (k, vm', out') \<Longrightarrow>
    pendingMigrationTarget vm' = None \<Longrightarrow> vm_step vm vm'"
| migrate: "RunForSlice (execSlice (config vm)) vm out = Inr (k, vm1, out1) \<Longrightarrow>
    pendingMigrationTarget vm1 = Some target \<Longrightarrow> precopy_rounds 2 vm1 out1 = Inr (vm2, out2) \<Longrightarrow>
    vm_step vm (ClearMigrationIntent vm2)"

text \<open>A round leaves the list of machines alone or makes one live machine take a step.\<close>

lemma Run_round_vms:
  assumes "Run_round h w = Inr (Some (h', w'))"
  shows "PickNext h' = PickNext h" and "sched h' = snd (pick_of h)"
    and "vms h' = vms h \<and> metrics h' = metrics h \<and> \<not> live (statuses h) (fst (pick_of h)) \<or>
      (\<exists>vm'. live (statuses h) (fst (pick_of h)) \<and> vm_step (vms h ! fst (pick_of h)) vm' \<and>
         vms h' = (vms h)[fst (pick_of h) := vm'])"
proof -
  have "PickNext h' = PickNext h \<and> sched h' = snd (pick_of h) \<and>
    (vms h' = vms h \<and> metrics h' = metrics h \<and> \<not> live (statuses h) (fst (pick_of h)) \<or>
      (\<exists>vm'. live (statuses h) (fst (pick_of h)) \<and> vm_step (vms h ! fst (pick_of h)) vm' \<and>
         vms h' = (vms h)[fst (pick_of h) := vm']))"
    using assms
  proof (cases rule: Run_roundE)
    case (runs idx s)
    from runs(3) show ?thesis
    proof (cases rule: dispatchE)
      case (stays k vm out)
      then show ?thesis
        using runs(1,2) vm_step.slice [OF stays(1)] by auto
    next
      case (migrates k vm out target r vm2 ms w2)
      have "vm_step (vms h ! idx) (ClearMigrationIntent vm2)"
        using vm_step.migrate [OF migrates(1) migrates(2)] PreCopyMigrate_Inr(1) [OF migrates(3)] by simp
      then show ?thesis
        using runs(1,2) migrates(4) by auto
    qed
  qed simp
  then show "PickNext h' = PickNext h" and "sched h' = snd (pick_of h)"
    and "vms h' = vms h \<and> metrics h' = metrics h \<and> \<not> live (statuses h) (fst (pick_of h)) \<or>
      (\<exists>vm'. live (statuses h) (fst (pick_of h)) \<and> vm_step (vms h ! fst (pick_of h)) vm' \<and>
         vms h' = (vms h)[fst (pick_of h) := vm'])"
    by simp_all
qed

lemma Run_round_length: "Run_round h w = Inr (Some (h', w')) \<Longrightarrow> length (vms h') = length (vms h)"
  using Run_round_vms(3) [of h w h' w'] by auto

text \<open>What every step keeps of a machine, every round keeps of each.\<close>

lemma Run_round_keeps:
  assumes "Run_round h w = Inr (Some (h', w'))" and "i < length (vms h)" and "P (vms h ! i)"
    and "\<And>vm'. P (vms h ! i) \<Longrightarrow> vm_step (vms h ! i) vm' \<Longrightarrow> P vm'"
  shows "P (vms h' ! i)"
  using Run_round_vms(3) [OF assms(1)] assms(2-4)
  by (cases "fst (pick_of h) = i") auto

lemma Run_round_list_all:
  assumes "Run_round h w = Inr (Some (h', w'))" and "list_all P (vms h)"
    and "\<And>vm vm'. P vm \<Longrightarrow> vm_step vm vm' \<Longrightarrow> P vm'"
  shows "list_all P (vms h')"
proof (unfold list_all_length, intro allI impI)
  fix i
  assume "i < length (vms h')"
  then have i: "i < length (vms h)"
    using Run_round_length [OF assms(1)] by simp
  then have "P (vms h ! i)"
    using assms(2) by (simp add: list_all_length)
  with assms(1) i show "P (vms h' ! i)"
    by (rule Run_round_keeps) (rule assms(3))
qed

lemma rounds_keep_vms:
  assumes "round_step\<^sup>*\<^sup>* (h, w) (h', w')"
    and "\<And>i. i < length (vms h) \<Longrightarrow> P i (vms h ! i)"
    and "\<And>i vm vm'. P i vm \<Longrightarrow> \<not> is_done (status vm) \<Longrightarrow> vm_step vm vm' \<Longrightarrow> P i vm'"
  shows "length (vms h') = length (vms h)" and "i < length (vms h) \<Longrightarrow> P i (vms h' ! i)"
proof -
  have "length (vms h') = length (vms h) \<and> (\<forall>i < length (vms h). P i (vms h' ! i))"
  proof (rule rounds_keep [OF assms(1)])
    show "length (vms h2) = length (vms h) \<and> (\<forall>i < length (vms h). P i (vms h2 ! i))"
      if j: "length (vms h1) = length (vms h) \<and> (\<forall>i < length (vms h). P i (vms h1 ! i))"
        and r: "Run_round h1 w1 = Inr (Some (h2, w2))" for h1 w1 h2 w2
    proof (intro conjI allI impI)
      show "length (vms h2) = length (vms h)"
        using j Run_round_length [OF r] by simp
      show "P i (vms h2 ! i)" if "i < length (vms h)" for i
        using Run_round_vms(3) [OF r] j that assms(3)
        by (cases "fst (pick_of h1) = i") (auto simp: live_statuses)
    qed
  qed (use assms(2) in simp)
  then show "length (vms h') = length (vms h)" and "i < length (vms h) \<Longrightarrow> P i (vms h' ! i)"
    by simp_all
qed

lemma Run_keeps:
  assumes "Run h w = Some (Inr (h', w'))"
    and "\<And>i. i < length (vms h) \<Longrightarrow> P i (vms h ! i)"
    and "\<And>i vm vm'. P i vm \<Longrightarrow> vm_step vm vm' \<Longrightarrow> P i vm'"
  shows "length (vms h') = length (vms h)" and "i < length (vms h) \<Longrightarrow> P i (vms h' ! i) \<and> is_done (status (vms h' ! i))"
proof -
  have r: "round_step\<^sup>*\<^sup>* (h, w) (h', w')" and stop: "Run_round h' w' = Inr None"
    using Run_reaches [OF assms(1)] by auto
  show l: "length (vms h') = length (vms h)"
    by (rule rounds_keep_vms(1) [OF r, of P]) (use assms(2,3) in auto)
  have "allDone h' \<or> vms h' = []"
    using stop by (auto simp: Run_round_def Let_def bind_cpp_eq_Inr split: prod.splits if_splits)
  then show "P i (vms h' ! i) \<and> is_done (status (vms h' ! i))" if "i < length (vms h)"
    using rounds_keep_vms(2) [OF r, of P, OF assms(2) _ that] assms(3) that l by (auto simp: allDone_iff)
qed

lemma Run_allDone:
  assumes "Run h w = Some (Inr (h', w'))"
  shows "allDone h'"
proof -
  have "Run_round h' w' = Inr None"
    using Run_reaches [OF assms] by auto
  then show ?thesis
    by (auto simp: Run_round_def Let_def bind_cpp_eq_Inr allDone_def split: prod.splits if_splits)
qed

section \<open>Machines between rounds\<close>

text \<open>Between rounds a machine is in order and no migration is pending.\<close>

definition rested :: "VirtualMachine \<Rightarrow> bool" where
  "rested vm \<longleftrightarrow> ok_vm vm \<and> pendingMigrationTarget vm = None"

lemma rested_new [inv_intros]: "length p < 2 ^ 64 \<Longrightarrow> rested (VirtualMachine_new c p)"
  by (simp add: rested_def ok_vm_new) (simp add: VirtualMachine_new_def)

text \<open>A migration becomes pending at a \<open>MIGRATE\<close> only.\<close>

lemma run_loop_pending:
  assumes "run_loop m k vm out = Inr (k', vm', out')" and "pendingMigrationTarget vm' \<noteq> pendingMigrationTarget vm"
  shows "parked vm'"
proof -
  have "case (k', vm', out') of (k', vm', out') \<Rightarrow>
      pendingMigrationTarget vm' \<noteq> pendingMigrationTarget vm \<longrightarrow> parked vm'"
    using assms(1)
  proof (induction rule: run_loop_induct)
    case (zero k vm out vm1 out1)
    then show ?case
      using ExecuteOne_pending [OF zero(3)] ExecuteOne_outcome(2,3) [OF zero(3)] ExecuteOne_Migrate
      by (cases "opcode (program vm ! pc_nat vm) = Migrate") (auto simp: parked_def)
  next
    case (step k vm out vm1 out1 r)
    have "opcode (program vm ! pc_nat vm) \<noteq> Migrate"
      using step(3) by (auto simp: ExecuteOne_Migrate)
    then show ?case
      using step ExecuteOne_pending [OF step(3)] by (auto split: prod.splits)
  qed simp
  with assms(2) show ?thesis by simp
qed

lemma parked_settle: "parked vm \<Longrightarrow> parked (settle vm)"
  by (auto simp: parked_def settle_def)

lemma RunForSlice_pending:
  assumes "RunForSlice n vm out = Inr (k, vm', out')" and "pendingMigrationTarget vm' \<noteq> pendingMigrationTarget vm"
  shows "parked vm'"
proof -
  have "\<not> is_done (status vm)"
    using assms by auto
  then obtain vm1 where "run_loop (unat n) 0 (vm\<lparr>status := Running\<rparr>) out = Inr (k, vm1, out')" and "vm' = settle vm1"
    using assms(1) by (auto simp: RunForSlice_Inr)
  then show ?thesis
    using run_loop_pending [of "unat n" 0 "vm\<lparr>status := Running\<rparr>" out k vm1 out'] assms(2)
    by (simp add: parked_settle)
qed

lemma precopy_parked:
  "parked vm \<Longrightarrow> precopy_rounds n vm out = Inr (vm', out') \<Longrightarrow> parked vm'"
proof (induction n arbitrary: vm out)
  case (Suc n)
  then show ?case
    using parked_RunForSlice(1) [of vm 10 out] by (auto simp: outcome_simps)
qed simp

lemma precopy_final_vm:
  "ok_vm vm \<Longrightarrow> precopy_rounds n vm out = Inr (vm', out') \<Longrightarrow> final_vm vm' = final_vm vm"
proof (induction n arbitrary: vm out)
  case (Suc n)
  then obtain k vm1 out1 where r: "RunForSlice 10 vm out = Inr (k, vm1, out1)"
    and p: "precopy_rounds n vm1 out1 = Inr (vm', out')"
    by (auto simp: outcome_simps)
  show ?case
    using Suc.IH [OF _ p] ok_vm_RunForSlice [OF Suc.prems(1) r] RunForSlice_final_vm [OF Suc.prems(1) r]
    by simp
qed simp

text \<open>A step keeps the machine in order, its program, its configuration and the state it will end in.\<close>

lemma vm_step_keeps:
  assumes "vm_step vm vm'" and "rested vm"
  shows "rested vm'" and "program vm' = program vm" and "config vm' = config vm"
    and "final_vm vm' = final_vm vm"
proof -
  have "rested vm' \<and> program vm' = program vm \<and> config vm' = config vm \<and> final_vm vm' = final_vm vm"
    using assms
  proof (induction rule: vm_step.induct)
    case (slice vm out k vm' out')
    then show ?case
      using ok_vm_RunForSlice RunForSlice_frame [OF slice(1)] RunForSlice_final_vm by (auto simp: rested_def)
  next
    case (migrate vm out k vm1 out1 target vm2 out2)
    have ok: "ok_vm vm1"
      using migrate ok_vm_RunForSlice by (auto simp: rested_def)
    have "parked vm1"
      using RunForSlice_pending [OF migrate(1)] migrate(2,4) by (simp add: rested_def)
    then have "parked vm2"
      by (rule precopy_parked [OF _ migrate(3)])
    then show ?case
      using ok_vm_precopy [OF migrate(3) ok] RunForSlice_frame [OF migrate(1)] final_vm_Clear [of vm2]
        precopy_final_vm [OF ok migrate(3)] RunForSlice_final_vm [OF _ migrate(1)] migrate(4)
      by (simp add: rested_def) (simp add: ClearMigrationIntent_def)
  qed
  then show "rested vm'" and "program vm' = program vm" and "config vm' = config vm"
    and "final_vm vm' = final_vm vm" by simp_all
qed

text \<open>What holds of every machine in every state that the hypervisor passes through.\<close>

lemma rounds_invariant:
  assumes "round_step\<^sup>*\<^sup>* (h, w) (h', w')" and "list_all rested (vms h)" and "i < length (vms h)"
  shows "length (vms h') = length (vms h)"
    and "rested (vms h' ! i) \<and> program (vms h' ! i) = program (vms h ! i) \<and> config (vms h' ! i) = config (vms h ! i)"
    and "final_vm (vms h' ! i) = final_vm (vms h ! i)"
    and "is_done (status (vms h ! i)) \<Longrightarrow> vms h' ! i = vms h ! i"
proof -
  let ?P = "\<lambda>i vm. rested vm \<and> program vm = program (vms h ! i) \<and> config vm = config (vms h ! i) \<and>
    final_vm vm = final_vm (vms h ! i) \<and> (is_done (status (vms h ! i)) \<longrightarrow> vm = vms h ! i)"
  have init: "?P i (vms h ! i)" if "i < length (vms h)" for i
    using assms(2) that by (simp add: list_all_length)
  have step: "?P i vm'" if "?P i vm" "\<not> is_done (status vm)" "vm_step vm vm'" for i vm vm'
    using vm_step_keeps [OF that(3)] that(1,2) by auto
  show "length (vms h') = length (vms h)"
    by (rule rounds_keep_vms(1) [where P = ?P, OF assms(1) init step])
  have "?P i (vms h' ! i)"
    by (rule rounds_keep_vms(2) [where P = ?P, OF assms(1) init step assms(3)])
  then show "rested (vms h' ! i) \<and> program (vms h' ! i) = program (vms h ! i) \<and> config (vms h' ! i) = config (vms h ! i)"
    and "final_vm (vms h' ! i) = final_vm (vms h ! i)"
    and "is_done (status (vms h ! i)) \<Longrightarrow> vms h' ! i = vms h ! i" by simp_all
qed

text \<open>
  The state every guest ends in does not depend on the scheduler, the slices and the other guests:
  it is the one of the reference semantics.
\<close>

lemma Run_final_vm:
  assumes "Run h w = Some (Inr (h', w'))" and "list_all rested (vms h)" and "i < length (vms h)"
  shows "final_vm (vms h ! i) = Inr (vms h' ! i)"
proof -
  have "(rested (vms h' ! i) \<and> final_vm (vms h' ! i) = final_vm (vms h ! i)) \<and> is_done (status (vms h' ! i))"
  proof (rule Run_keeps(2) [OF assms(1), where P = "\<lambda>i vm. rested vm \<and> final_vm vm = final_vm (vms h ! i)"])
    show "rested (vms h ! j) \<and> final_vm (vms h ! j) = final_vm (vms h ! j)" if "j < length (vms h)" for j
      using assms(2) that by (simp add: list_all_length)
    show "rested vm' \<and> final_vm vm' = final_vm (vms h ! j)"
      if "rested vm \<and> final_vm vm = final_vm (vms h ! j)" "vm_step vm vm'" for j vm vm'
      using vm_step_keeps(1,4) [OF that(2)] that(1) by simp
  qed (rule assms(3))
  then show ?thesis
    by (metis final_vm_done)
qed

section \<open>When the loop ends\<close>

text \<open>
  The guests that run to their end: in order, without a \<open>MIGRATE\<close>, and with a slice that is not
  empty.
\<close>

definition good_guest :: "VirtualMachine \<Rightarrow> bool" where
  "good_guest vm \<longleftrightarrow> rested vm \<and> no_migrate vm \<and> execSlice (config vm) \<noteq> 0"

definition instructions_left :: "VirtualMachine \<Rightarrow> nat" where
  "instructions_left vm = (if is_done (status vm) then 0 else Suc (length (program vm) - pc_nat vm))"

definition work_left :: "('s, 't) HypervisorCore \<Rightarrow> nat" where
  "work_left h = sum_list (map instructions_left (vms h))"

lemma vm_step_progress:
  assumes "vm_step vm vm'" and "good_guest vm" and "\<not> is_done (status vm)"
  shows "good_guest vm'" and "instructions_left vm' < instructions_left vm"
proof -
  have g: "ok_vm vm" "no_migrate vm" "pendingMigrationTarget vm = None" "execSlice (config vm) \<noteq> 0"
    using assms(2) by (simp_all add: good_guest_def rested_def)
  have "good_guest vm' \<and> instructions_left vm' < instructions_left vm"
    using assms(1)
  proof cases
    case (slice out k out')
    note n = RunForSlice_no_migrate [OF g(1,2) assms(3) slice(1)]
    note f = RunForSlice_frame [OF slice(1)]
    have "good_guest vm'"
      using ok_vm_RunForSlice [OF g(1) slice(1)] n(1) f g(4) slice(2) by (simp add: good_guest_def rested_def)
    moreover have "instructions_left vm' < instructions_left vm"
      using n(3) RunForSlice_account [OF g(1) assms(3) slice(1)] f(2) assms(3) g(4)
      by (auto simp: instructions_left_def unat_gt_0 [symmetric] simp del: unat_gt_0)
    ultimately show ?thesis ..
  next
    case (migrate out k vm1 out1 target vm2 out2)
    then show ?thesis
      using RunForSlice_no_migrate(2) [OF g(1,2) assms(3) migrate(2)] g(3) by simp
  qed
  then show "good_guest vm'" and "instructions_left vm' < instructions_left vm" by simp_all
qed

lemma later_statuses:
  assumes "vms h' = (vms h)[i := vm']" and "live (statuses h) i"
  shows "later (statuses h) (statuses h')"
  using later_update [OF assms(2), of "status vm'"] assms(1) by (simp add: statuses_def map_update)

lemma Run_round_priorities:
  assumes "Run_round h w = Inr (Some (h', w'))" and "list_all rested (vms h)"
  shows "priorities h' = priorities h"
proof (rule nth_equalityI)
  fix i
  assume "i < length (priorities h')"
  then have i: "i < length (vms h)"
    using Run_round_length [OF assms(1)] by simp
  then have "rested (vms h ! i)"
    using assms(2) by (simp add: list_all_length)
  then have "config (vms h' ! i) = config (vms h ! i)"
    using Run_round_keeps [OF assms(1) i, where P = "\<lambda>vm. config vm = config (vms h ! i)"]
      vm_step_keeps(3) by blast
  then show "priorities h' ! i = priorities h ! i"
    using i Run_round_length [OF assms(1)] by (simp add: priorities_def)
qed (use Run_round_length [OF assms(1)] in simp)

text \<open>Under any scheduler that keeps the contract, the loop ends.\<close>

context scheduler
begin

lemma round_progress:
  assumes "Run_round h w = Inr (Some (h', w'))" and "PickNext h = pick"
    and "sinv (sched h) (statuses h) (priorities h)" and "list_all good_guest (vms h)"
  shows "PickNext h' = pick" and "sinv (sched h') (statuses h') (priorities h')"
    and "list_all good_guest (vms h')" and "work_left h' < work_left h"
proof -
  let ?i = "fst (pick_of h)"
  have "\<not> allDone h"
    using assms(1) by (auto simp: Run_round_def)
  then obtain j where "live (statuses h) j"
    by (auto simp: not_allDone)
  then have l: "live (statuses h) ?i" and k: "later (statuses h) st' \<Longrightarrow>
      sinv (snd (pick_of h)) st' (priorities h)" for st'
    using picks_live [OF assms(3)] keeps_inv [OF assms(3)] assms(2) by auto
  then obtain vm' where st: "vm_step (vms h ! ?i) vm'" and v: "vms h' = (vms h)[?i := vm']"
    using Run_round_vms(3) [OF assms(1)] by auto
  have i: "?i < length (vms h)" and nd: "\<not> is_done (status (vms h ! ?i))"
    using l by (simp_all add: live_statuses)
  then have g: "good_guest (vms h ! ?i)"
    using assms(4) by (simp add: list_all_length)
  show "PickNext h' = pick"
    using Run_round_vms(1) [OF assms(1)] assms(2) by simp
  have "list_all rested (vms h)"
    using assms(4) by (auto simp: list_all_length good_guest_def)
  then show "sinv (sched h') (statuses h') (priorities h')"
    using Run_round_priorities [OF assms(1)] Run_round_vms(2) [OF assms(1)] k [OF later_statuses [OF v l]]
    by simp
  show "list_all good_guest (vms h')"
    using assms(4) vm_step_progress(1) [OF st g nd] i by (auto simp: v list_all_length nth_list_update)
  show "work_left h' < work_left h"
    using sum_list_update_less [OF i vm_step_progress(2) [OF st g nd]] by (simp add: work_left_def v)
qed

lemma Run_returns:
  assumes "PickNext h = pick" and "sinv (sched h) (statuses h) (priorities h)"
    and "list_all good_guest (vms h)"
  shows "\<exists>r. Run h w = Some r"
  using assms
proof (induction "work_left h" arbitrary: h w rule: less_induct)
  case less
  show ?case
  proof (cases "Run_round h w")
    case (Inl e)
    then show ?thesis by (simp add: Run_abort)
  next
    case (Inr o')
    show ?thesis
    proof (cases o')
      case None
      then show ?thesis using Inr by (simp add: Run_stop)
    next
      case (Some s)
      obtain h' w' where "s = (h', w')" by (cases s)
      then have r: "Run_round h w = Inr (Some (h', w'))"
        using Inr Some by simp
      note p = round_progress [OF r less.prems]
      show ?thesis
        using less.hyps [OF p(4,1,2,3)] by (simp add: Run_step [OF r])
    qed
  qed
qed

end

section \<open>Runs that cannot abort\<close>

lemma precopy_returns:
  "wf_vm vm \<Longrightarrow> abort_free vm \<Longrightarrow> returns (precopy_rounds n vm out)"
proof (induction n arbitrary: vm out)
  case (Suc n)
  obtain k vm1 out1 where r: "RunForSlice 10 vm out = Inr (k, vm1, out1)"
    using RunForSlice_returns [OF Suc.prems, of 10 out] by (auto simp: returns_iff)
  have "wf_vm vm1" and "abort_free vm1"
    using wf_vm_RunForSlice [OF Suc.prems(1) r] RunForSlice_frame(2) [OF r] Suc.prems(2)
    by (simp_all add: abort_free_def)
  then show ?case
    using Suc.IH r by simp
qed simp

lemma PreCopyMigrate_returns:
  assumes "wf_vm vm" and "abort_free vm"
  shows "returns (PreCopyMigrate vm target ms w)"
proof -
  obtain met w1 where s: "StartMigration w (service_metrics ms) = (met, w1)"
    by (cases "StartMigration w (service_metrics ms)")
  obtain vm' out where "precopy_rounds 2 vm (cout w1) = Inr (vm', out)"
    using precopy_returns [OF assms, of 2 "cout w1"] by (auto simp: returns_iff)
  then show ?thesis
    using s by (simp add: PreCopyMigrate_def Let_def split: prod.splits)
qed

lemma dispatch_returns:
  assumes "wf_vm (vms h ! i)" and "abort_free (vms h ! i)"
  shows "returns (dispatch i h w)"
proof -
  let ?vm = "vms h ! i"
  obtain k vm out where r: "RunForSlice (execSlice (config ?vm)) ?vm (cout w) = Inr (k, vm, out)"
    using RunForSlice_returns [OF assms] by (fastforce simp: returns_iff)
  have "wf_vm vm" and "abort_free vm"
    using wf_vm_RunForSlice [OF assms(1) r] RunForSlice_frame(2) [OF r] assms(2)
    by (simp_all add: abort_free_def)
  then have m: "returns (PreCopyMigrate vm target (migrationService h) (w\<lparr>cout := out\<rparr>))" for target
    by (rule PreCopyMigrate_returns)
  show ?thesis
  proof (cases "pendingMigrationTarget vm")
    case None
    then show ?thesis
      using r by (simp add: dispatch_def Let_def)
  next
    case (Some target)
    obtain x where "PreCopyMigrate vm target (migrationService h) (w\<lparr>cout := out\<rparr>) = Inr x"
      using m [of target] by (cases "PreCopyMigrate vm target (migrationService h) (w\<lparr>cout := out\<rparr>)") auto
    then show ?thesis
      using r Some by (cases x) (simp add: dispatch_def Let_def)
  qed
qed

definition sound_guest :: "VirtualMachine \<Rightarrow> bool" where
  "sound_guest vm \<longleftrightarrow> rested vm \<and> abort_free vm"

lemma sound_guest_step: "sound_guest vm \<Longrightarrow> vm_step vm vm' \<Longrightarrow> sound_guest vm'"
  using vm_step_keeps(1,2) [of vm vm'] by (simp add: sound_guest_def abort_free_def)

lemma Run_round_returns:
  assumes "list_all sound_guest (vms h)"
  shows "returns (Run_round h w)"
proof (cases "live (statuses h) (fst (pick_of h))")
  case True
  then have "wf_vm (vms h ! fst (pick_of h))" and "abort_free (vms h ! fst (pick_of h))"
    using assms by (simp_all add: list_all_length live_statuses sound_guest_def rested_def ok_vm_def)
  then have "\<exists>r. dispatch (fst (pick_of h)) (h\<lparr>sched := snd (pick_of h)\<rparr>) w = Inr r"
    using dispatch_returns [of "h\<lparr>sched := snd (pick_of h)\<rparr>"] by (simp add: returns_iff)
  then show ?thesis
    by (auto simp: Run_round_def Let_def split_beta)
next
  case False
  then show ?thesis
    by (auto simp: Run_round_def Let_def split_beta live_statuses is_done_def)
qed

lemma Run_round_sound:
  assumes "Run_round h w = Inr (Some (h', w'))" and "list_all sound_guest (vms h)"
  shows "list_all sound_guest (vms h')"
  using assms by (rule Run_round_list_all) (rule sound_guest_step)

lemma Run_no_abort:
  assumes "list_all sound_guest (vms h)"
  shows "Run h w \<noteq> Some (Inl e)"
proof
  assume "Run h w = Some (Inl e)"
  then obtain h' w' where s: "round_step\<^sup>*\<^sup>* (h, w) (h', w')" and a: "Run_round h' w' = Inl e"
    using Run_reaches by fastforce
  have "list_all sound_guest (vms (fst s)) \<Longrightarrow> round_step\<^sup>*\<^sup>* s s' \<Longrightarrow> list_all sound_guest (vms (fst s'))"
    for s s' :: "('a, 'b) HypervisorCore \<times> World"
  proof (rotate_tac, induction rule: rtranclp_induct)
    case (step a b)
    then show ?case
      using Run_round_sound by (cases a; cases b) (auto elim!: round_stepE)
  qed simp
  from this [of "(h, w)" "(h', w')"] show False
    using s a assms Run_round_returns [of h' w'] by simp
qed

section \<open>Runs that do not end\<close>

text \<open>
  A live guest that no step moves: it stands at a \<open>MIGRATE\<close>, which does not advance the program
  counter, or its slice is empty.
\<close>

definition stuck :: "VirtualMachine \<Rightarrow> bool" where
  "stuck vm \<longleftrightarrow> \<not> is_done (status vm) \<and> pc_nat vm < length (program vm) \<and>
     (opcode (program vm ! pc_nat vm) = Migrate \<or> execSlice (config vm) = 0 \<and> pendingMigrationTarget vm = None)"

lemma parked_stuck: "parked vm \<Longrightarrow> stuck vm"
  by (simp add: parked_def stuck_def)

lemma stuck_cases: "stuck vm \<Longrightarrow> parked vm \<or> \<not> is_done (status vm) \<and> pc_nat vm < length (program vm) \<and>
    execSlice (config vm) = 0 \<and> pendingMigrationTarget vm = None"
  by (auto simp: parked_def stuck_def)

lemma RunForSlice_0:
  "\<not> is_done (status vm) \<Longrightarrow> pc_nat vm < length (program vm) \<Longrightarrow>
   RunForSlice 0 vm out = Inr (0, vm\<lparr>status := Ready\<rparr>, out)"
  by (simp add: RunForSlice_def is_done_def run_loop_stop settle_def)

lemma stuck_step:
  assumes "stuck vm" and "vm_step vm vm'"
  shows "stuck vm'"
  using stuck_cases [OF assms(1)]
proof
  assume "parked vm"
  from assms(2) have "parked vm'"
  proof cases
    case (slice out k out')
    show ?thesis by (rule parked_RunForSlice(1) [OF \<open>parked vm\<close> slice(1)])
  next
    case (migrate out k vm1 out1 target vm2 out2)
    show ?thesis
      using precopy_parked [OF parked_RunForSlice(1) [OF \<open>parked vm\<close> migrate(2)] migrate(4)] migrate(1)
      by simp
  qed
  then show ?thesis by (rule parked_stuck)
next
  assume i: "\<not> is_done (status vm) \<and> pc_nat vm < length (program vm) \<and>
    execSlice (config vm) = 0 \<and> pendingMigrationTarget vm = None"
  then have z: "RunForSlice (execSlice (config vm)) vm out = Inr (0, vm\<lparr>status := Ready\<rparr>, out)" for out
    using RunForSlice_0 by simp
  from assms(2) have "vm' = vm\<lparr>status := Ready\<rparr>"
  proof cases
    case (slice out k out')
    then show ?thesis using z [of out] by simp
  next
    case (migrate out k vm1 out1 target vm2 out2)
    then show ?thesis using z [of out] i by auto
  qed
  then show ?thesis
    using i by (simp add: stuck_def)
qed

lemma stuck_not_done: "i < length (vms h) \<Longrightarrow> stuck (vms h ! i) \<Longrightarrow> Run_round h w \<noteq> Inr None"
  by (auto simp: Run_round_def Let_def bind_cpp_eq_Inr allDone_iff stuck_def split: prod.splits if_splits)

lemma Run_round_stuck:
  assumes "Run_round h w = Inr (Some (h', w'))" and "i < length (vms h)" and "stuck (vms h ! i)"
  shows "i < length (vms h')" and "stuck (vms h' ! i)"
  using Run_round_length [OF assms(1)] assms(2) Run_round_keeps [OF assms(1,2), where P = stuck, OF assms(3) stuck_step]
  by simp_all

text \<open>With a stuck guest the loop does not end, whatever the scheduler, the transport and the other guests do.\<close>

lemma Run_stuck:
  assumes "i < length (vms h)" and "stuck (vms h ! i)"
  shows "Run h w \<noteq> Some (Inr r)"
proof -
  have "Run h w \<noteq> Some (Inr (h', w'))" for h' w'
  proof (rule Run_never_stops [where P = "\<lambda>h w. i < length (vms h) \<and> stuck (vms h ! i)"])
    show "i < length (vms h2) \<and> stuck (vms h2 ! i)"
      if "i < length (vms h1) \<and> stuck (vms h1 ! i)" "Run_round h1 w1 = Inr (Some (h2, w2))" for h1 w1 h2 w2
      using Run_round_stuck [OF that(2)] that(1) by simp
    show "Run_round h1 w1 \<noteq> Inr None" if "i < length (vms h1) \<and> stuck (vms h1 ! i)" for h1 w1
      by (rule stuck_not_done) (use that in auto)
  qed (use assms in simp)
  then show ?thesis
    by (cases r) simp
qed

lemma Run_stuck_diverges:
  assumes "i < length (vms h)" and "stuck (vms h ! i)" and "list_all sound_guest (vms h)"
  shows "Run h w = None"
proof (cases "Run h w")
  case (Some r)
  then show ?thesis
    using Run_stuck [OF assms(1,2)] Run_no_abort [OF assms(3)] by (cases r) auto
qed simp

text \<open>
  The priority scheduler compares with \<open>-1000000\<close> before it prefers a machine, so below that it
  keeps picking machine 0.
\<close>

lemma priority_scan_floor:
  assumes "\<And>i. live st i \<Longrightarrow> pr ! i \<le> - 1000000" and "k \<le> length st"
  shows "foldl (priority_step st pr) (- 1000000, 0) [0..<k] = (- 1000000, 0)"
  using assms(2)
proof (induction k)
  case (Suc k)
  then have "pr ! k \<le> - 1000000 \<or> st ! k = Halted \<or> st ! k = Faulted"
    using assms(1) [of k] by (auto simp: live_def is_done_def)
  then have "priority_step st pr (- 1000000, 0) k = (- 1000000, 0)"
    by (auto simp: priority_step_def)
  then show ?case
    using Suc by simp
qed simp

lemma Priority_floor:
  "(\<And>i. live st i \<Longrightarrow> pr ! i \<le> - 1000000) \<Longrightarrow> Priority_PickNext u st pr = (0, ())"
  using priority_scan_floor [of st pr "length st"] by (simp add: Priority_PickNext_def)

lemma Run_priority_floor:
  assumes "PickNext h = Priority_PickNext" and "\<not> live (statuses h) 0" and "live (statuses h) j"
    and "\<And>i. live (statuses h) i \<Longrightarrow> priorities h ! i \<le> - 1000000"
  shows "Run h w = None"
proof (rule Run_diverges [where P = "\<lambda>h' w'. h' = h"])
  have p: "pick_of h = (0, ())"
    using Priority_floor [OF assms(4)] by (simp add: assms(1))
  have "vms h \<noteq> []" and "\<not> allDone h"
    using assms(3) by (auto simp: not_allDone live_statuses)
  then have "Run_round h w' = Inr (Some (h\<lparr>sched := ()\<rparr>, w'))" for w'
    using p assms(2) by (auto simp: Run_round_def Let_def live_statuses is_done_def)
  moreover have "h\<lparr>sched := ()\<rparr> = h"
    by (cases h) simp
  ultimately show "\<exists>h2 w2. Run_round h1 w1 = Inr (Some (h2, w2)) \<and> h2 = h" if "h1 = h" for h1 w1
    using that by simp
qed simp

end
