(* ===== verification/Guest_Output.thy ===== *)
theory Guest_Output
  imports Hypervisor_Runs
begin

text \<open>
  What the guests write: a slice only appends whole lines to the console, and the console of a whole
  run is an interleaving of what each guest writes when it is run alone.
\<close>

section \<open>A slice appends to the console\<close>

definition whole_lines :: "string \<Rightarrow> bool" where
  "whole_lines s \<longleftrightarrow> s = [] \<or> last s = CHR ''\<newline>''"

lemma whole_lines_simps [simp]: "whole_lines []" "whole_lines s \<Longrightarrow> whole_lines t \<Longrightarrow> whole_lines (s @ t)"
  by (auto simp: whole_lines_def last_append)

lemma ExecuteOne_appends:
  assumes "ExecuteOne i vm out = Inr (k, vm', out')"
  shows "\<exists>s. out' = out @ s \<and> whole_lines s"
proof (cases "opcode i = DumpProcessorState")
  case True
  then show ?thesis
    using assms by (auto simp: ExecuteOne_def retire_def dump_text_def whole_lines_def)
next
  case False
  then have "out' = out"
    using assms by (cases "opcode i") (auto simp: ExecuteOne_def binary_op_def step_Inr)
  then show ?thesis by simp
qed

lemma run_loop_appends:
  assumes "run_loop m k vm out = Inr (k', vm', out')"
  shows "\<exists>s. out' = out @ s \<and> whole_lines s"
proof -
  have "case (k', vm', out') of (_, _, out') \<Rightarrow> \<exists>s. out' = out @ s \<and> whole_lines s"
    using assms
  proof (induction rule: run_loop_induct)
    case (zero k vm out vm1 out1)
    then show ?case using ExecuteOne_appends [OF zero(3)] by simp
  next
    case (step k vm out vm1 out1 r)
    then show ?case using ExecuteOne_appends [OF step(3)] by (cases r) (auto intro: whole_lines_simps(2))
  qed simp
  then show ?thesis by simp
qed

lemma RunForSlice_appends:
  "RunForSlice n vm out = Inr (k, vm', out') \<Longrightarrow> \<exists>s. out' = out @ s \<and> whole_lines s"
  by (cases "is_done (status vm)") (auto simp: RunForSlice_Inr dest: run_loop_appends)

lemma precopy_silent:
  "parked vm \<Longrightarrow> precopy_rounds n vm out = Inr (vm', out') \<Longrightarrow> out' = out"
proof (induction n arbitrary: vm out)
  case (Suc n)
  then show ?case
    using parked_RunForSlice(1,3) [of vm 10 out] by (fastforce simp: outcome_simps)
qed simp

section \<open>What a guest still writes\<close>

text \<open>The state a guest ends in with what it writes until then, some of which has been written already.\<close>

definition after_output :: "string \<Rightarrow> (VirtualMachine \<times> string) cpp \<Rightarrow> (VirtualMachine \<times> string) cpp" where
  "after_output s r = bind_cpp r (\<lambda>(vm, out). Inr (vm, s @ out))"

lemma after_output_simps [simp]:
  "after_output s (Inr (vm, out)) = Inr (vm, s @ out)" "after_output [] r = r"
  "after_output s (after_output t r) = after_output (s @ t) r"
  by (cases r; auto simp: after_output_def)+

lemma after_output_cancel: "after_output s r = after_output s r' \<longleftrightarrow> r = r'"
  by (cases r; cases r') (auto simp: after_output_def)

lemma outcome_out: "outcome vm out = after_output out (outcome vm [])"
  using run_to_end_out [of "drop (pc_nat vm) (program vm)" "vm\<lparr>status := Running\<rparr>" out]
  by (simp add: outcome_def after_output_def)

text \<open>A part of the run that appends \<open>s\<close> leaves the rest of the output to be written.\<close>

lemma outcome_rest:
  assumes "outcome vm' (out @ s) = outcome vm out"
  shows "outcome vm [] = after_output s (outcome vm' [])"
proof -
  have "after_output out (outcome vm []) = after_output (out @ s) (outcome vm' [])"
    using assms outcome_out [of vm out] outcome_out [of vm' "out @ s"] by simp
  then have "after_output out (outcome vm []) = after_output out (after_output s (outcome vm' []))"
    by simp
  then show ?thesis
    by (simp only: after_output_cancel)
qed

lemma outcome_Clear: "parked vm \<Longrightarrow> outcome (ClearMigrationIntent vm) out = outcome vm out"
  by (simp add: outcome_parked) (simp add: ClearMigrationIntent_def)

lemma precopy_outcome:
  "ok_vm vm \<Longrightarrow> precopy_rounds n vm out = Inr (vm', out') \<Longrightarrow> outcome vm' out' = outcome vm out"
proof (induction n arbitrary: vm out)
  case (Suc n)
  then obtain k vm1 out1 where r: "RunForSlice 10 vm out = Inr (k, vm1, out1)"
    and p: "precopy_rounds n vm1 out1 = Inr (vm', out')"
    by (auto simp: outcome_simps)
  show ?case
    using Suc.IH [OF _ p] ok_vm_RunForSlice [OF Suc.prems(1) r] RunForSlice_outcome [OF Suc.prems(1) r]
    by simp
qed simp

text \<open>
  A round in which machine \<open>i\<close> runs appends a text to the console, which is the next part of what
  the machine writes when it is run alone.
\<close>

lemma dispatch_output:
  assumes "dispatch i h w = Inr (h', w')" and "rested (vms h ! i)"
  obtains s vm' where "cout w' = cout w @ s" and "whole_lines s" and "vms h' = (vms h)[i := vm']"
    and "outcome (vms h ! i) [] = after_output s (outcome vm' [])"
  using assms(1)
proof (cases rule: dispatchE)
  case (stays k vm out)
  obtain s where s: "out = cout w @ s" and l: "whole_lines s"
    using RunForSlice_appends [OF stays(1)] by blast
  have "outcome vm out = outcome (vms h ! i) (cout w)"
    using RunForSlice_outcome [OF _ stays(1)] assms(2) by (simp add: rested_def)
  then have "outcome (vms h ! i) [] = after_output s (outcome vm [])"
    unfolding s by (rule outcome_rest)
  then show thesis
    using that [of s vm] stays(3,4) s l by simp
next
  case (migrates k vm out target r vm2 ms w2)
  have ok: "ok_vm vm"
    using ok_vm_RunForSlice [OF _ migrates(1)] assms(2) by (simp add: rested_def)
  have p: "parked vm"
    using RunForSlice_pending [OF migrates(1)] migrates(2) assms(2) by (simp add: rested_def)
  note pre = PreCopyMigrate_Inr(1) [OF migrates(3)]
  have out: "cout w2 = out"
    using precopy_silent [OF p pre] by simp
  obtain s where s: "out = cout w @ s" and l: "whole_lines s"
    using RunForSlice_appends [OF migrates(1)] by blast
  have "outcome (ClearMigrationIntent vm2) out = outcome (vms h ! i) (cout w)"
    using outcome_Clear [OF precopy_parked [OF p pre]] precopy_outcome [OF ok pre] out
      RunForSlice_outcome [OF _ migrates(1)] assms(2) by (simp add: rested_def)
  then have "outcome (vms h ! i) [] = after_output s (outcome (ClearMigrationIntent vm2) [])"
    unfolding s by (rule outcome_rest)
  then show thesis
    using that [of s "ClearMigrationIntent vm2"] migrates(4,5) out s l by (simp split: sum.splits)
qed

section \<open>The console of a run\<close>

text \<open>The texts on the console, each with the machine that wrote it, and those of one machine.\<close>

type_synonym console = "(nat \<times> string) list"

definition written :: "console \<Rightarrow> string" where
  "written log = concat (map snd log)"

definition said :: "nat \<Rightarrow> console \<Rightarrow> string" where
  "said i log = written (filter (\<lambda>p. fst p = i) log)"

lemma written_snoc [simp]: "written (log @ [(i, s)]) = written log @ s"
  by (simp add: written_def)

lemma said_snoc [simp]: "said i (log @ [(j, s)]) = (if i = j then said i log @ s else said i log)"
  by (simp add: said_def written_def)

lemma written_Nil [simp]: "written [] = []" "said i [] = []"
  by (simp_all add: written_def said_def)

text \<open>After some rounds: what is on the console so far, and what each guest still has to write.\<close>

definition console_of :: "('s, 't) HypervisorCore \<Rightarrow> World \<Rightarrow> ('s, 't) HypervisorCore \<Rightarrow> World \<Rightarrow> console \<Rightarrow> bool" where
  "console_of h w h' w' log \<longleftrightarrow>
     cout w' = cout w @ written log \<and> fst ` set log \<subseteq> {..<length (vms h)} \<and> list_all whole_lines (map snd log) \<and>
     (\<forall>i < length (vms h). outcome (vms h ! i) [] = after_output (said i log) (outcome (vms h' ! i) []))"

lemma rounds_console:
  assumes "round_step\<^sup>*\<^sup>* (h, w) (h', w')" and "list_all rested (vms h)"
  shows "\<exists>log. console_of h w h' w' log"
proof -
  have "list_all rested (vms h') \<and> length (vms h') = length (vms h) \<and> (\<exists>log. console_of h w h' w' log)"
  proof (rule rounds_keep [OF assms(1)])
    show "list_all rested (vms h) \<and> length (vms h) = length (vms h) \<and> (\<exists>log. console_of h w h w log)"
      using assms(2) by (auto intro!: exI [of _ "[]"] simp: console_of_def)
    show "list_all rested (vms h2) \<and> length (vms h2) = length (vms h) \<and> (\<exists>log. console_of h w h2 w2 log)"
      if j: "list_all rested (vms h1) \<and> length (vms h1) = length (vms h) \<and> (\<exists>log. console_of h w h1 w1 log)"
        and r: "Run_round h1 w1 = Inr (Some (h2, w2))" for h1 w1 h2 w2
    proof (intro conjI)
      show "list_all rested (vms h2)"
        using j by (intro Run_round_list_all [OF r]) (auto intro: vm_step_keeps(1))
      show "length (vms h2) = length (vms h)"
        using j Run_round_length [OF r] by simp
      obtain log where log: "console_of h w h1 w1 log"
        using j by blast
      show "\<exists>log. console_of h w h2 w2 log"
        using r
      proof (cases rule: Run_roundE)
        case (spins idx s)
        then show ?thesis
          using log by (auto simp: console_of_def)
      next
        case (runs idx s)
        then have i: "idx < length (vms h)" and ri: "rested (vms h1 ! idx)"
          using j by (simp_all add: live_statuses list_all_length)
        from runs(3) obtain t vm' where "cout w2 = cout w1 @ t" and "whole_lines t" and "vms h2 = (vms h1)[idx := vm']"
          and "outcome (vms h1 ! idx) [] = after_output t (outcome vm' [])"
          by (rule dispatch_output) (use ri in simp_all)
        then have "console_of h w h2 w2 (log @ [(idx, t)])"
          using log i j by (auto simp: console_of_def nth_list_update)
        then show ?thesis ..
      qed
    qed
  qed
  then show ?thesis by simp
qed

text \<open>
  When the run returns, the console is an interleaving, in whole lines, of the outputs of the guests,
  each of which is what the guest writes when it is run alone, and the guests are in the states that gives.
\<close>

lemma Run_console:
  assumes "Run h w = Some (Inr (h', w'))" and "list_all rested (vms h)"
  shows "\<exists>log. cout w' = cout w @ written log \<and> fst ` set log \<subseteq> {..<length (vms h)} \<and> list_all whole_lines (map snd log) \<and>
    (\<forall>i < length (vms h). outcome (vms h ! i) [] = Inr (vms h' ! i, said i log))"
proof -
  have r: "round_step\<^sup>*\<^sup>* (h, w) (h', w')"
    using Run_reaches [OF assms(1)] by auto
  have "length (vms h') = length (vms h)"
    using rounds_keep_vms(1) [OF r, of "\<lambda>_ _. True"] by simp
  moreover from this have "is_done (status (vms h' ! i))" if "i < length (vms h)" for i
    using Run_allDone [OF assms(1)] that by (simp add: allDone_iff)
  ultimately show ?thesis
    using rounds_console [OF r assms(2)] by (auto simp: console_of_def)
qed

text \<open>Without machines that write, the console stays as it was.\<close>

text \<open>Two machines that write a line each: the lines come one after the other.\<close>

lemma prefix_of_line:
  assumes "s @ t = x @ [CHR ''\<newline>'']" and "CHR ''\<newline>'' \<notin> set x" and "whole_lines s" and "s \<noteq> []"
  shows "t = []"
proof -
  have "s = butlast s @ [CHR ''\<newline>'']"
    using assms(3,4) append_butlast_last_id [of s] by (simp add: whole_lines_def)
  then have e: "butlast s @ [CHR ''\<newline>''] @ t = x @ [CHR ''\<newline>'']"
    using assms(1) by (metis append_assoc)
  show ?thesis
  proof (rule ccontr)
    assume "t \<noteq> []"
    then have "x = butlast s @ [CHR ''\<newline>''] @ butlast t"
      using arg_cong [OF e, of butlast] by (simp add: butlast_append)
    then show False
      using assms(2) by simp
  qed
qed

lemma two_speakers:
  assumes "list_all whole_lines (map snd log)" and "fst ` set log \<subseteq> {..<2}"
    and "said 0 log \<in> {[], a @ ''\<newline>''}" and "said 1 log \<in> {[], b @ ''\<newline>''}"
    and "CHR ''\<newline>'' \<notin> set a" and "CHR ''\<newline>'' \<notin> set b"
  shows "written log = said 0 log @ said 1 log \<or> written log = said 1 log @ said 0 log"
  using assms(1-4)
proof (induction log)
  case (Cons p log)
  obtain i s where p: "p = (i, s)" by (cases p)
  have step: "written (p # log) = s @ written log" "said j (p # log) = (if i = j then s @ said j log else said j log)" for j
    by (simp_all add: p written_def said_def)
  have i: "i = 0 \<or> i = 1" and w: "whole_lines s"
    using Cons.prems p by auto
  show ?case
  proof (cases "s = []")
    case True
    then have e: "written (p # log) = written log" "said 0 (p # log) = said 0 log" "said 1 (p # log) = said 1 log"
      by (simp_all add: step)
    show ?thesis
      unfolding e by (rule Cons.IH) (use Cons.prems e p in auto)
  next
    case False
    from i show ?thesis
    proof
      assume i: "i = 0"
      then have "said 0 log = []"
        using Cons.prems(3) step(2) [of 0] prefix_of_line [OF _ assms(5) w False, of "said 0 log"] False by auto
      then show ?thesis
        using Cons p step i by simp
    next
      assume i: "i = 1"
      then have "said 1 log = []"
        using Cons.prems(4) step(2) [of 1] prefix_of_line [OF _ assms(6) w False, of "said 1 log"] False by auto
      then show ?thesis
        using Cons p step i by simp
    qed
  qed
qed simp

end
