(* ===== verification/Run_Account.thy ===== *)
theory Run_Account
  imports Guest_Output
begin

text \<open>
  Runs that return: the guests that come to an end, what the metrics count for them, and that no
  migration takes place.
\<close>

section \<open>Guests that come to an end\<close>

text \<open>Run alone, the guest halts or faults: it neither aborts nor stops at a \<open>MIGRATE\<close>.\<close>

definition finishes :: "VirtualMachine \<Rightarrow> bool" where
  "finishes vm \<longleftrightarrow> (\<exists>v. final_vm vm = Inr v \<and> is_done (status v))"

lemma finishes_outcome: "finishes vm \<longleftrightarrow> (\<exists>v out. outcome vm [] = Inr (v, out) \<and> is_done (status v))"
  by (auto simp: finishes_def final_vm_def bind_cpp_eq_Inr)

lemma parked_not_finishes: "parked vm \<Longrightarrow> \<not> finishes vm"
  by (simp add: finishes_def final_vm_def outcome_parked is_done_def)

text \<open>A slice aborts only where the guest run alone aborts.\<close>

lemma run_loop_abort_outcome:
  "run_loop m k vm out = Inl e \<Longrightarrow> length (program vm) < 2 ^ 64 \<Longrightarrow>
   run_to_end (drop (pc_nat vm) (program vm)) vm out = Inl e"
proof (induction m k vm out rule: run_loop.induct)
  case (1 m k vm out)
  show ?case
  proof (cases "k < m \<and> pc_nat vm < length (program vm)")
    case True
    let ?i = "program vm ! pc_nat vm"
    have d: "drop (pc_nat vm) (program vm) = ?i # drop (Suc (pc_nat vm)) (program vm)"
      using True by (simp add: Cons_nth_drop_Suc)
    show ?thesis
    proof (cases "ExecuteOne ?i vm out")
      case (Inl a)
      then show ?thesis
        using "1.prems"(1) True d by (simp add: run_loop_step)
    next
      case (Inr r)
      obtain j vm1 out1 where r: "r = (j, vm1, out1)" by (cases r)
      have o: "program vm1 = program vm" "j = 0 \<or> j = 1 \<and> pc (vcpu vm1) = pc (vcpu vm) + 1"
        using ExecuteOne_outcome [of ?i vm out] Inr r by auto
      have "j \<noteq> 0"
        using "1.prems"(1) True Inr r by (auto simp: run_loop_step split: if_splits)
      then have j: "j = 1" "pc_nat vm1 = Suc (pc_nat vm)"
        using o(2) unat_pc_Suc [of vm] True "1.prems"(2) by auto
      then have "run_loop m (k + 1) vm1 out1 = Inl e"
        using "1.prems"(1) True Inr r by (simp add: run_loop_step)
      then show ?thesis
        using "1.IH" [OF True Inr r [symmetric]] "1.prems"(2) Inr r d o(1) j by simp
    qed
  next
    case False
    then show ?thesis
      using "1.prems"(1) by (simp add: run_loop_stop)
  qed
qed

lemma finishes_slice:
  assumes "finishes vm" and "ok_vm vm"
  obtains k vm' out' where "RunForSlice n vm out = Inr (k, vm', out')"
proof (cases "RunForSlice n vm out")
  case (Inl e)
  have nd: "\<not> is_done (status vm)"
    using Inl by auto
  then have "run_loop (unat n) 0 (vm\<lparr>status := Running\<rparr>) out = Inl e"
    using Inl by (auto simp: RunForSlice_def is_done_def bind_cpp_eq_Inl)
  then have "outcome vm out = Inl e"
    using run_loop_abort_outcome [of "unat n" 0 "vm\<lparr>status := Running\<rparr>" out e] assms(2) nd
    by (simp add: outcome_def ok_vm_def)
  then show thesis
    using assms(1) outcome_out [of vm out] by (auto simp: finishes_outcome after_output_def)
next
  case (Inr r)
  then show thesis
    using that by (cases r) auto
qed

text \<open>The guests whose slice ends at a \<open>MIGRATE\<close>.\<close>

lemma run_loop_target:
  assumes "run_loop m k vm out = Inr (k', vm', out')" and "status vm \<noteq> Blocked"
    and "status vm' = Blocked \<or> pendingMigrationTarget vm' \<noteq> pendingMigrationTarget vm"
  shows "parked vm' \<and> status vm' = Blocked \<and> pendingMigrationTarget vm' = Some (target_of vm')"
proof -
  have "status vm \<noteq> Blocked \<longrightarrow> (case (k', vm', out') of (k', vm', out') \<Rightarrow>
      status vm' = Blocked \<or> pendingMigrationTarget vm' \<noteq> pendingMigrationTarget vm \<longrightarrow>
      parked vm' \<and> status vm' = Blocked \<and> pendingMigrationTarget vm' = Some (target_of vm'))"
    using assms(1)
  proof (induction rule: run_loop_induct)
    case (zero k vm out vm1 out1)
    show ?case
    proof (cases "opcode (program vm ! pc_nat vm) = Migrate")
      case True
      then show ?thesis
        using zero by (auto simp: ExecuteOne_Migrate parked_def is_done_def)
    next
      case False
      then show ?thesis
        using ExecuteOne_pending [OF zero(3)] ExecuteOne_Blocked(1) [OF zero(3)] by auto
    qed
  next
    case (step k vm out vm1 out1 r)
    have "opcode (program vm ! pc_nat vm) \<noteq> Migrate"
      using step(3) by (auto simp: ExecuteOne_Migrate)
    then show ?case
      using step ExecuteOne_pending [OF step(3)] ExecuteOne_outcome [OF step(3)] by (auto split: prod.splits)
  qed simp
  with assms(2,3) show ?thesis by (simp only: prod.case) blast
qed

lemma RunForSlice_target:
  assumes "RunForSlice n vm out = Inr (k, vm', out')" and "\<not> is_done (status vm)"
    and "status vm' = Blocked \<or> pendingMigrationTarget vm' \<noteq> pendingMigrationTarget vm"
  shows "parked vm' \<and> status vm' = Blocked \<and> pendingMigrationTarget vm' = Some (target_of vm')"
proof -
  obtain vm1 where r: "run_loop (unat n) 0 (vm\<lparr>status := Running\<rparr>) out = Inr (k, vm1, out')" and v: "vm' = settle vm1"
    using assms(1,2) by (auto simp: RunForSlice_Inr)
  have "status vm1 = Blocked \<or> pendingMigrationTarget vm1 \<noteq> pendingMigrationTarget vm"
    using assms(3) by (auto simp: v settle_def split: if_splits)
  then have "parked vm1 \<and> status vm1 = Blocked \<and> pendingMigrationTarget vm1 = Some (target_of vm1)"
    using run_loop_target [OF r] by simp
  moreover from this have "settle vm1 = vm1"
    by (auto simp: settle_def parked_def)
  ultimately show ?thesis by (simp add: v)
qed

text \<open>A guest that is in order and comes to an end never asks for a migration.\<close>

definition closing_guest :: "VirtualMachine \<Rightarrow> bool" where
  "closing_guest vm \<longleftrightarrow> rested vm \<and> finishes vm"

lemma closing_step: "closing_guest vm \<Longrightarrow> vm_step vm vm' \<Longrightarrow> closing_guest vm'"
  using vm_step_keeps [of vm vm'] by (simp add: closing_guest_def finishes_def)

lemma closing_slice:
  assumes "closing_guest vm" and "\<not> is_done (status vm)" and "RunForSlice n vm out = Inr (k, vm', out')"
  shows "status vm' \<noteq> Blocked" and "pendingMigrationTarget vm' = None"
proof -
  have g: "ok_vm vm" "pendingMigrationTarget vm = None"
    using assms(1) by (simp_all add: closing_guest_def rested_def)
  then have "finishes vm'"
    using assms(1) RunForSlice_final_vm [OF g(1) assms(3)] by (simp add: closing_guest_def finishes_def)
  then have "\<not> parked vm'"
    using parked_not_finishes by blast
  then show "status vm' \<noteq> Blocked" and "pendingMigrationTarget vm' = None"
    using RunForSlice_target [OF assms(3,2)] g(2) by (blast, fastforce)
qed

lemma Run_finishes:
  assumes "Run h w = Some (Inr (h', w'))" and "list_all rested (vms h)"
  shows "list_all finishes (vms h)"
proof (unfold list_all_length, intro allI impI)
  fix i
  assume i: "i < length (vms h)"
  have "is_done (status (vms h' ! i))"
    using Run_keeps(2) [OF assms(1), of "\<lambda>_ _. True"] i by simp
  then show "finishes (vms h ! i)"
    using Run_final_vm [OF assms i] by (auto simp: finishes_def)
qed

lemma Run_closing: "Run h w = Some (Inr (h', w')) \<Longrightarrow> list_all rested (vms h) \<Longrightarrow> list_all closing_guest (vms h)"
  using Run_finishes [of h w h' w'] by (simp add: closing_guest_def list_all_iff)

lemma Run_round_silent:
  assumes "Run_round h w = Inr (Some (h', w'))" and "list_all closing_guest (vms h)"
  shows "migrationService h' = migrationService h \<and> cerr w' = cerr w"
  using assms(1)
proof (cases rule: Run_roundE)
  case (runs idx s)
  then have c: "closing_guest (vms h ! idx)" "\<not> is_done (status (vms h ! idx))"
    using assms(2) by (simp_all add: live_statuses list_all_length)
  from runs(3) show ?thesis
  proof (cases rule: dispatchE)
    case (migrates k vm out target r vm2 ms w2)
    then show ?thesis
      using closing_slice(2) [OF c] by simp
  qed simp
qed simp

section \<open>The metrics\<close>

text \<open>
  The instructions counted for a guest are those its program counter has passed.
\<close>

lemma pc_of_retired:
  assumes "ok_vm vm" and "\<not> is_done (status vm)" and "RunForSlice n vm out = Inr (k, vm', out')"
  shows "pc (vcpu vm') = pc (vcpu vm) + of_nat k"
proof -
  have "pc_nat vm' = pc_nat vm + k"
    using RunForSlice_account [OF assms] by simp
  then have "(of_nat (pc_nat vm') :: size_t) = of_nat (pc_nat vm) + of_nat k"
    by simp
  then show ?thesis by simp
qed

abbreviation vm_names :: "('s, 't) HypervisorCore \<Rightarrow> string list" where
  "vm_names h \<equiv> map (name \<circ> config) (vms h)"

text \<open>The instructions counted for machine \<open>i\<close> beyond its program counter.\<close>

definition surplus :: "('s, 't) HypervisorCore \<Rightarrow> nat \<Rightarrow> size_t" where
  "surplus h i = retired_count (metrics h) (vm_names h ! i) - pc (vcpu (vms h ! i))"

lemma Run_round_names:
  assumes "Run_round h w = Inr (Some (h', w'))" and "list_all rested (vms h)"
  shows "vm_names h' = vm_names h"
proof (rule nth_equalityI)
  fix i
  assume "i < length (vm_names h')"
  then have i: "i < length (vms h)"
    using Run_round_length [OF assms(1)] by simp
  then have "rested (vms h ! i)"
    using assms(2) by (simp add: list_all_length)
  then have "config (vms h' ! i) = config (vms h ! i)"
    using Run_round_keeps [OF assms(1) i, where P = "\<lambda>vm. config vm = config (vms h ! i)"]
      vm_step_keeps(3) by blast
  then show "vm_names h' ! i = vm_names h ! i"
    using i Run_round_length [OF assms(1)] by simp
qed (use Run_round_length [OF assms(1)] in simp)

lemma Run_round_surplus:
  assumes "Run_round h w = Inr (Some (h', w'))" and "list_all closing_guest (vms h)"
    and "distinct (vm_names h)" and "i < length (vms h)"
  shows "surplus h' i = surplus h i"
proof -
  have n: "vm_names h' = vm_names h"
    using assms(2) by (intro Run_round_names [OF assms(1)]) (auto simp: list_all_length closing_guest_def)
  from assms(1) show ?thesis
  proof (cases rule: Run_roundE)
    case (runs idx s)
    have idx: "idx < length (vms h)" "\<not> is_done (status (vms h ! idx))"
      using runs(2) by (simp_all add: live_statuses)
    then have c: "closing_guest (vms h ! idx)" and g: "ok_vm (vms h ! idx)"
      using assms(2) by (simp_all add: list_all_length closing_guest_def rested_def)
    have other: "name (config (vms h ! idx)) \<noteq> name (config (vms h ! i))" if "idx \<noteq> i"
      using that assms(3,4) idx(1) nth_eq_iff_index_eq [of "vm_names h" idx i] by simp
    from runs(3) show ?thesis
    proof (cases rule: dispatchE)
      case (stays k vm out)
      then have r: "RunForSlice (execSlice (config (vms h ! idx))) (vms h ! idx) (cout w) = Inr (k, vm, out)"
        by simp
      show ?thesis
        using stays(3) pc_of_retired [OF g idx(2) r] n idx(1) other assms(4)
        by (cases "idx = i") (auto simp: surplus_def frame_simps)
    next
      case (migrates k vm out target r vm2 ms w2)
      then have "RunForSlice (execSlice (config (vms h ! idx))) (vms h ! idx) (cout w) = Inr (k, vm, out)"
        by simp
      then show ?thesis
        using closing_slice(2) [OF c idx(2)] migrates(2) by simp
    qed
  qed (simp add: surplus_def)
qed

lemma Run_surplus:
  assumes "Run h w = Some (Inr (h', w'))" and "list_all closing_guest (vms h)"
    and "distinct (vm_names h)" and "i < length (vms h)"
  shows "surplus h' i = surplus h i" and "vm_names h' = vm_names h"
proof -
  let ?J = "\<lambda>h1 w1. list_all closing_guest (vms h1) \<and> vm_names h1 = vm_names h \<and> surplus h1 i = surplus h i"
  have "?J h' w' \<and> Run_round h' w' = Inr None"
  proof (rule Run_invariant [OF assms(1), where P = ?J])
    show "?J h w" using assms(2) by simp
    show "?J h2 w2" if j: "?J h1 w1" and r: "Run_round h1 w1 = Inr (Some (h2, w2))" for h1 w1 h2 w2
    proof (intro conjI)
      have j1: "list_all closing_guest (vms h1)" and j2: "vm_names h1 = vm_names h"
        using j by simp_all
      have len: "length (vms h1) = length (vms h)"
        using arg_cong [OF j2, of length] by simp
      show "list_all closing_guest (vms h2)"
        by (rule Run_round_list_all [OF r j1]) (rule closing_step)
      have "list_all rested (vms h1)"
        using j1 by (auto simp: list_all_length closing_guest_def)
      then show "vm_names h2 = vm_names h"
        using Run_round_names [OF r] j2 by simp
      show "surplus h2 i = surplus h i"
        using Run_round_surplus [OF r j1, of i] j j2 len assms(3,4) by simp
    qed
  qed
  then show "surplus h' i = surplus h i" and "vm_names h' = vm_names h" by simp_all
qed

text \<open>Only the machines of the hypervisor are counted.\<close>

abbreviation counted :: "MetricsTracer \<Rightarrow> string set" where
  "counted m \<equiv> dom (instructionsByVm (stats m))"

lemma Run_round_counted:
  assumes "Run_round h w = Inr (Some (h', w'))"
  shows "counted (metrics h') \<subseteq> counted (metrics h) \<union> set (vm_names h)"
  using assms
proof (cases rule: Run_roundE)
  case (runs idx s)
  have "name (config (vms h ! idx)) \<in> set (vm_names h)"
    using runs(2) by (simp add: live_statuses)
  moreover from runs(3) have "counted (metrics h') \<subseteq> insert (name (config (vms h ! idx))) (counted (metrics h))"
    by (cases rule: dispatchE) (auto simp: RecordInstructions_def RecordDispatch_def)
  ultimately show ?thesis by blast
qed simp

lemma Run_counted:
  assumes "Run h w = Some (Inr (h', w'))" and "list_all rested (vms h)"
  shows "counted (metrics h') \<subseteq> counted (metrics h) \<union> set (vm_names h)"
proof -
  let ?J = "\<lambda>h1 w1. list_all rested (vms h1) \<and> vm_names h1 = vm_names h \<and>
    counted (metrics h1) \<subseteq> counted (metrics h) \<union> set (vm_names h)"
  have "?J h' w' \<and> Run_round h' w' = Inr None"
  proof (rule Run_invariant [OF assms(1), where P = ?J])
    show "?J h w" using assms(2) by simp
    show "?J h2 w2" if j: "?J h1 w1" and r: "Run_round h1 w1 = Inr (Some (h2, w2))" for h1 w1 h2 w2
    proof (intro conjI)
      have j1: "list_all rested (vms h1)" using j by simp
      show "list_all rested (vms h2)"
        by (rule Run_round_list_all [OF r j1]) (rule vm_step_keeps(1))
      show "vm_names h2 = vm_names h"
        using Run_round_names [OF r j1] j by simp
      have "counted (metrics h2) \<subseteq> counted (metrics h1) \<union> set (vm_names h)"
        using Run_round_counted [OF r] j by (simp only:)
      then show "counted (metrics h2) \<subseteq> counted (metrics h) \<union> set (vm_names h)"
        using j by blast
    qed
  qed
  then show ?thesis by simp
qed

text \<open>The account of a run that returns.\<close>

lemma Run_silent:
  assumes "Run h w = Some (Inr (h', w'))" and "list_all rested (vms h)"
  shows "migrationService h' = migrationService h \<and> cerr w' = cerr w"
proof -
  let ?J = "\<lambda>h1 w1. list_all closing_guest (vms h1) \<and> migrationService h1 = migrationService h \<and> cerr w1 = cerr w"
  have "?J h' w' \<and> Run_round h' w' = Inr None"
  proof (rule Run_invariant [OF assms(1), where P = ?J])
    show "?J h w" using Run_closing [OF assms] by simp
    show "?J h2 w2" if j: "?J h1 w1" and r: "Run_round h1 w1 = Inr (Some (h2, w2))" for h1 w1 h2 w2
    proof -
      have "list_all closing_guest (vms h2)"
        by (rule Run_round_list_all [OF r]) (use j closing_step in auto)
      then show ?thesis
        using Run_round_silent [OF r] j by simp
    qed
  qed
  then show ?thesis by simp
qed

end
