(* ===== verification/Main_Program.thy ===== *)
theory Main_Program
  imports Run_Account
begin

text \<open>
  The program: \<open>src/main.cpp\<close>. The schedulers behind the interface \<open>IScheduler\<close> are a datatype,
  the local transport is an implementation of the migration transport.
\<close>

section \<open>The code\<close>

definition LocalTransport :: "unit IMigrationTransport" where
  "LocalTransport = \<lparr>Handshake = (\<lambda>_ _ t. (True, t)), SendPacket = (\<lambda>_ t. (True, t))\<rparr>"

definition ReadLines :: "string \<Rightarrow> World \<Rightarrow> string list" where
  "ReadLines path w =
     (case files w path of
        None \<Rightarrow> read_lines \<lparr>buf = [], eofbit = False, failbit = True\<rparr>
      | Some text \<Rightarrow> read_lines (istringstream text))"

datatype IScheduler =
    RoundRobin_sched nat
  | Priority_sched
  | Mlfq_sched MlfqScheduler

fun IScheduler_PickNext :: "IScheduler \<Rightarrow> VmStatus list \<Rightarrow> int list \<Rightarrow> nat \<times> IScheduler" where
  "IScheduler_PickNext (RoundRobin_sched c) st pr =
     (let (i, c') = RoundRobin_PickNext c st pr in (i, RoundRobin_sched c'))"
| "IScheduler_PickNext Priority_sched st pr = (fst (Priority_PickNext () st pr), Priority_sched)"
| "IScheduler_PickNext (Mlfq_sched q) st pr =
     (let (i, q') = Mlfq_PickNext q st pr in (i, Mlfq_sched q'))"

definition BuildScheduler :: "string \<Rightarrow> IScheduler" where
  "BuildScheduler nm =
     (if nm = ''priority'' then Priority_sched
      else if nm = ''mlfq'' then Mlfq_sched MlfqScheduler_init
      else RoundRobin_sched 0)"

definition demoProgram :: "string list" where
  "demoProgram = [''li $1, 42'', ''sw $1, 0'', ''lw $2, 0'', ''DUMP_PROCESSOR_STATE'', ''HALT'']"

definition vmA :: VmConfig where
  "vmA = VmConfig_init\<lparr>name := ''vmA'', execSlice := 3, priority := 2, programPath := ''inline''\<rparr>"

definition vmB :: VmConfig where
  "vmB = VmConfig_init\<lparr>name := ''vmB'', execSlice := 2, priority := 1, programPath := ''inline''\<rparr>"

definition demo_hypervisor ::
  "string \<Rightarrow> Instruction list \<Rightarrow> Instruction list \<Rightarrow> (IScheduler, unit) HypervisorCore" where
  "demo_hypervisor schedulerName pA pB =
     (let migrationService = \<lparr>transport = LocalTransport, transport_state = (), service_metrics = MetricsTracer_init\<rparr>;
          hypervisor = HypervisorCore_new IScheduler_PickNext (BuildScheduler schedulerName) migrationService;
          hypervisor = AddVm (VirtualMachine_new vmA pA) hypervisor;
          hypervisor = AddVm (VirtualMachine_new vmB pB) hypervisor
      in hypervisor)"

definition retired_text :: "string \<times> size_t \<Rightarrow> string" where
  "retired_text = (\<lambda>(nm, n). nm @ '' retired instructions: '' @ show_nat (unat n) @ ''\<newline>'')"

text \<open>
  \<open>main\<close>, given the arguments behind the program name and the order in which the library iterates
  over a hash map. \<open>None\<close> means that it does not return.
\<close>

definition main_program ::
  "((string \<rightharpoonup> size_t) \<Rightarrow> (string \<times> size_t) list) \<Rightarrow> string list \<Rightarrow> World \<Rightarrow> (int \<times> World) cpp option" where
  "main_program iteration args w =
     (let schedulerName = (case args of [] \<Rightarrow> ''round_robin'' | a # _ \<Rightarrow> a)
      in case ParseProgram demoProgram of
           Inl e \<Rightarrow> Some (Inl e)
         | Inr pA \<Rightarrow> (case ParseProgram demoProgram of
           Inl e \<Rightarrow> Some (Inl e)
         | Inr pB \<Rightarrow> (case Run (demo_hypervisor schedulerName pA pB) w of
           None \<Rightarrow> None
         | Some (Inl e) \<Rightarrow> Some (Inl e)
         | Some (Inr (hypervisor, w)) \<Rightarrow>
             Some (Inr (0, w\<lparr>cout := cout w @ ''Scheduler: '' @ schedulerName @ ''\<newline>''
               @ concat (map retired_text (iteration (instructionsByVm (stats (metrics hypervisor)))))\<rparr>)))))"

section \<open>The interfaces the program provides\<close>

fun IScheduler_inv :: "IScheduler \<Rightarrow> VmStatus list \<Rightarrow> int list \<Rightarrow> bool" where
  "IScheduler_inv (RoundRobin_sched c) st pr = True"
| "IScheduler_inv Priority_sched st pr = above_floor st pr"
| "IScheduler_inv (Mlfq_sched q) st pr = mlfq_inv q st pr"

interpretation chosen: scheduler IScheduler_PickNext IScheduler_inv
proof
  show "live st (fst (IScheduler_PickNext s st pr))"
    if "IScheduler_inv s st pr" "length pr = length st" "live st i" for s st pr i
    using that by (cases s) (auto simp: split_beta intro: rr.picks_live prio.picks_live mlfq.picks_live)
  show "IScheduler_inv (snd (IScheduler_PickNext s st pr)) st' pr"
    if "IScheduler_inv s st pr" "length pr = length st" "live st i" "later st st'" for s st pr i st'
    using that by (cases s) (auto simp: split_beta intro: prio.keeps_inv mlfq.keeps_inv)
qed

interpretation local: lossy_transport LocalTransport "\<lambda>_. 0"
  by unfold_locales (simp_all add: LocalTransport_def)

section \<open>Reading a program file\<close>

lemma ReadLines_missing: "files w path = None \<Longrightarrow> ReadLines path w = []"
  by (simp add: ReadLines_def) (subst read_lines.simps, simp add: getline_def good_def)

text \<open>The lines of a file, whether or not the last one is terminated, and none for a file that cannot be opened.\<close>

lemma read_lines_splits:
  assumes "\<forall>l \<in> set ls. CHR ''\<newline>'' \<notin> set l" and "CHR ''\<newline>'' \<notin> set e"
  shows "(files w path = Some (concat (map (\<lambda>l. l @ ''\<newline>'') ls) @ e) \<longrightarrow>
           ReadLines path w = ls @ (if e = [] then [] else [e])) \<and>
         (files w path = None \<longrightarrow> ReadLines path w = [])"
proof (intro conjI impI)
  assume "files w path = Some (concat (map (\<lambda>l. l @ ''\<newline>'') ls) @ e)"
  then have "ReadLines path w = read_lines (stream (concat (map (\<lambda>l. l @ ''\<newline>'') ls) @ e))"
    by (simp only: ReadLines_def istringstream_def option.case)
  with read_lines_text [OF assms] show "ReadLines path w = ls @ (if e = [] then [] else [e])"
    by (rule back_subst [OF _ sym])
qed (rule ReadLines_missing)

section \<open>The demo\<close>

definition demo_code :: "Instruction list" where
  "demo_code =
     [Instruction_init\<lparr>opcode := Li, rd := 1, imm := 42\<rparr>,
      Instruction_init\<lparr>opcode := Sw, rs := 1\<rparr>,
      Instruction_init\<lparr>opcode := Lw, rd := 2\<rparr>,
      Instruction_init\<lparr>opcode := DumpProcessorState\<rparr>,
      Instruction_init\<lparr>opcode := Halt\<rparr>]"

lemma show_small: "show_nat 42 = ''42''" "show_nat 0 = ''0''" "show_nat (Suc 0) = ''1''" "show_nat 2 = ''2''" "show_nat 4 = ''4''"
  by code_simp+

lemma demo_parses: "ParseProgram demoProgram = Inr demo_code"
proof -
  have "demoProgram = map render demo_code"
    by (simp add: demoProgram_def demo_code_def render_def Instruction_init_def reg_text_def show_int_def show_small)
  moreover have "list_all canonical demo_code"
    by (simp add: demo_code_def canonical_def Instruction_init_def in_i32_def)
  ultimately show ?thesis
    using ParseProgram_render [of demo_code] by (simp only:)
qed

text \<open>The instructions that the demo does not share with the general lemmas, one by one.\<close>

lemma ExecuteOne_Li:
  "opcode i = Li \<Longrightarrow> wf_vm vm \<Longrightarrow> in_file (rd i) \<Longrightarrow>
   ExecuteOne i vm out = retire (vm\<lparr>vcpu := (vcpu vm)\<lparr>regs := (regs (vcpu vm))[nat (rd i) := imm i]\<rparr>\<rparr>) out"
  by (simp add: ExecuteOne_def set_Reg_def valid_reg_wf)

lemma ExecuteOne_Sw_mapped:
  assumes "opcode i = Sw" and "wf_vm vm" and "in_file (rs i)" and "page_walk (memory vm) (imm i) = Inr p"
  shows "\<exists>m. ExecuteOne i vm out = retire (vm\<lparr>memory := m\<rparr>) out \<and> coherent m"
proof -
  have "coherent (memory vm)"
    using assms(2) by (simp add: wf_vm_def)
  then obtain m where "WriteWord (imm i) (regs (vcpu vm) ! nat (rs i)) (memory vm) = Inr (Inr (), m)" "coherent m"
    using WriteWord_walk [of "memory vm" "imm i" "regs (vcpu vm) ! nat (rs i)"] assms(4) by auto
  then show ?thesis
    using assms(1,2,3) by (auto simp: ExecuteOne_def Reg_def valid_reg_wf)
qed

lemma page_walk_new_0: "configMemoryBytes c = 64 * 1024 \<Longrightarrow> \<exists>p. page_walk (VirtualMemory_new (configMemoryBytes c)) 0 = Inr p"
  using walk_read_new [of "configMemoryBytes c" 0] by (auto simp: walk_read_def split: sum.splits)

text \<open>The text the dump of a demo guest prints.\<close>

definition demo_dump :: "VmConfig \<Rightarrow> string" where
  "demo_dump c = ''[VM '' @ name c @ ''] PC=3 R1=42 HI=0 LO=0'' @ ''\<newline>''"

lemma show_dump: "show_nat 3 = ''3''" "show_int 42 = ''42''" "show_int 0 = ''0''"
  by code_simp+

text \<open>The first three instructions load 42, store it and load it into the second register.\<close>

lemma demo_prefix:
  assumes "configMemoryBytes c = 64 * 1024" and "vm0 = (VirtualMachine_new c demo_code)\<lparr>status := Running\<rparr>"
  shows "\<exists>vm1 vm2 vm3. ExecuteOne (demo_code ! 0) vm0 [] = Inr (1, vm1, []) \<and>
    ExecuteOne (demo_code ! 1) vm1 [] = Inr (1, vm2, []) \<and> ExecuteOne (demo_code ! 2) vm2 [] = Inr (1, vm3, []) \<and>
    wf_vm vm3 \<and> regs (vcpu vm3) = ((replicate 32 0)[1 := 42])[2 := 42] \<and> pc (vcpu vm3) = 3 \<and>
    hi (vcpu vm3) = 0 \<and> lo (vcpu vm3) = 0 \<and> config vm3 = c"
proof -
  define mem where "mem = VirtualMemory_new (configMemoryBytes c)"
  define vm1 where "vm1 = vm0\<lparr>vcpu := (vcpu vm0)\<lparr>regs := (regs (vcpu vm0))[1 := 42], pc := 1\<rparr>\<rparr>"
  have w0: "wf_vm vm0"
    using wf_vm_new [of c demo_code] by (simp add: assms(2))
  have f0: "memory vm0 = mem" "vcpu vm0 = CpuState_init" "status vm0 = Running" "config vm0 = c" "program vm0 = demo_code"
    by (simp_all add: assms(2) VirtualMachine_new_def mem_def)
  have i0: "ExecuteOne (demo_code ! 0) vm0 [] = Inr (1, vm1, [])"
    using f0 by (subst ExecuteOne_Li) (simp_all add: demo_code_def Instruction_init_def w0 in_file_def retire_def
        vm1_def CpuState_init_def status_same)
  have w1: "wf_vm vm1"
    by (rule wf_vm_ExecuteOne [OF w0 i0])
  have f1: "memory vm1 = mem" "regs (vcpu vm1) = (replicate 32 0)[1 := 42]" "pc (vcpu vm1) = 1"
    "hi (vcpu vm1) = 0" "lo (vcpu vm1) = 0" "config vm1 = c"
    using f0 by (simp_all add: vm1_def CpuState_init_def)
  obtain p where p: "page_walk mem 0 = Inr p"
    using page_walk_new_0 [OF assms(1)] by (auto simp: mem_def)
  obtain m where "ExecuteOne (demo_code ! 1) vm1 [] = retire (vm1\<lparr>memory := m\<rparr>) []"
    using ExecuteOne_Sw_mapped [of "demo_code ! 1" vm1 p "[]"] w1 p f1(1)
    by (auto simp: demo_code_def Instruction_init_def in_file_def)
  then obtain vm2 where i1: "ExecuteOne (demo_code ! 1) vm1 [] = Inr (1, vm2, [])"
    and f2: "vcpu vm2 = (vcpu vm1)\<lparr>pc := 2\<rparr>" "config vm2 = c"
    using f1 by (auto simp: retire_def)
  have w2: "wf_vm vm2"
    by (rule wf_vm_ExecuteOne [OF w1 i1])
  obtain vm3 where i2: "ExecuteOne (demo_code ! 2) vm2 [] = Inr (1, vm3, [])" and v: "regs (vcpu vm3) ! 2 = 42"
    using store_then_load [OF w1 _ _ _ _ i1, of "demo_code ! 2"] f1(2)
    by (auto simp: demo_code_def Instruction_init_def in_file_def)
  have "regs (vcpu vm3) = (regs (vcpu vm2))[2 := 42]" "pc (vcpu vm3) = 3" "hi (vcpu vm3) = 0" "lo (vcpu vm3) = 0"
    "config vm3 = c"
    using i2 v f2 f1 w2
    by (auto simp: demo_code_def Instruction_init_def ExecuteOne_def step_Inr wf_vm_def wf_cpu_def split: sum.splits)
  then show ?thesis
    using i0 i1 i2 wf_vm_ExecuteOne [OF w2 i2] f2 f1 by auto
qed

lemma demo_outcome:
  assumes "configMemoryBytes c = 64 * 1024"
  shows "\<exists>vm. outcome (VirtualMachine_new c demo_code) [] = Inr (vm, demo_dump c) \<and> status vm = Halted \<and>
           regs (vcpu vm) ! 1 = 42 \<and> regs (vcpu vm) ! 2 = 42 \<and> pc (vcpu vm) = 4 \<and> wf_vm vm"
proof -
  define vm0 where "vm0 = (VirtualMachine_new c demo_code)\<lparr>status := Running\<rparr>"
  obtain vm1 vm2 vm3 where i: "ExecuteOne (demo_code ! 0) vm0 [] = Inr (1, vm1, [])"
    "ExecuteOne (demo_code ! 1) vm1 [] = Inr (1, vm2, [])" "ExecuteOne (demo_code ! 2) vm2 [] = Inr (1, vm3, [])"
    and w3: "wf_vm vm3" and f3: "regs (vcpu vm3) = ((replicate 32 0)[1 := 42])[2 := 42]" "pc (vcpu vm3) = 3"
    "hi (vcpu vm3) = 0" "lo (vcpu vm3) = 0" "config vm3 = c"
    using demo_prefix [OF assms vm0_def] by blast
  have d: "dump_text vm3 = demo_dump c"
    using f3 by (simp add: dump_text_def demo_dump_def show_dump)
  define vm4 where "vm4 = vm3\<lparr>vcpu := (vcpu vm3)\<lparr>pc := 4\<rparr>, status := Running\<rparr>"
  have i3: "ExecuteOne (demo_code ! 3) vm3 [] = Inr (1, vm4, demo_dump c)"
    using f3 d by (simp add: demo_code_def Instruction_init_def ExecuteOne_def retire_def vm4_def)
  have i4: "ExecuteOne (demo_code ! 4) vm4 (demo_dump c) = Inr (0, vm4\<lparr>status := Halted\<rparr>, demo_dump c)"
    by (simp add: demo_code_def Instruction_init_def ExecuteOne_def)
  have w4: "wf_vm (vm4\<lparr>status := Halted\<rparr>)"
    using w3 by (simp add: vm4_def wf_vm_def wf_cpu_def)
  have "demo_code = [demo_code ! 0, demo_code ! 1, demo_code ! 2, demo_code ! 3, demo_code ! 4]"
    by (simp add: demo_code_def)
  moreover have "run_to_end [demo_code ! 0, demo_code ! 1, demo_code ! 2, demo_code ! 3, demo_code ! 4] vm0 [] =
      Inr (vm4\<lparr>status := Halted\<rparr>, demo_dump c)"
    using i i3 i4 by simp
  ultimately have "run_to_end demo_code vm0 [] = Inr (vm4\<lparr>status := Halted\<rparr>, demo_dump c)"
    by (simp only:)
  moreover have "outcome (VirtualMachine_new c demo_code) [] = run_to_end demo_code vm0 []"
    by (simp add: outcome_def vm0_def) (simp add: VirtualMachine_new_def CpuState_init_def)
  ultimately show ?thesis
    using w4 f3 by (intro exI [of _ "vm4\<lparr>status := Halted\<rparr>"]) (simp add: vm4_def)
qed

section \<open>The demo under any scheduler\<close>

abbreviation demo :: "string \<Rightarrow> (IScheduler, unit) HypervisorCore" where
  "demo nm \<equiv> demo_hypervisor nm demo_code demo_code"

lemma demo_fields [simp]:
  "vms (demo nm) = [VirtualMachine_new vmA demo_code, VirtualMachine_new vmB demo_code]"
  "PickNext (demo nm) = IScheduler_PickNext" "sched (demo nm) = BuildScheduler nm"
  "metrics (demo nm) = MetricsTracer_init"
  by (simp_all add: demo_hypervisor_def Let_def HypervisorCore_new_def AddVm_def)

lemma new_fields [simp]:
  "config (VirtualMachine_new c p) = c" "program (VirtualMachine_new c p) = p" "status (VirtualMachine_new c p) = Ready"
  "pc (vcpu (VirtualMachine_new c p)) = 0"
  by (simp_all add: VirtualMachine_new_def CpuState_init_def)

lemma demo_code_facts: "list_all (\<lambda>i. opcode i \<noteq> Migrate \<and> safe_regs i \<and> \<not> is_arith i) demo_code" "length demo_code = 5"
  by (simp_all add: demo_code_def Instruction_init_def safe_regs_def is_arith_def in_file_def)

lemma demo_guest:
  "execSlice c \<noteq> 0 \<Longrightarrow> good_guest (VirtualMachine_new c demo_code) \<and> sound_guest (VirtualMachine_new c demo_code)"
  using demo_code_facts rested_new [of demo_code c]
  by (simp add: good_guest_def sound_guest_def no_migrate_def abort_free_def list_all_iff)

lemma demo_guests:
  "list_all good_guest (vms (demo nm))" "list_all sound_guest (vms (demo nm))"
  "list_all rested (vms (demo nm))"
  using demo_guest [of vmA] demo_guest [of vmB] by (simp_all add: vmA_def vmB_def VmConfig_init_def good_guest_def)

lemma demo_scheduler: "IScheduler_inv (sched (demo nm)) (statuses (demo nm)) (priorities (demo nm))"
proof -
  have "above_floor [Ready, Ready] [2, 1]"
    by (auto simp: above_floor_def live_def nth_Cons split: nat.splits)
  then show ?thesis
    by (simp add: BuildScheduler_def statuses_def priorities_def vmA_def vmB_def MlfqScheduler_init_def mlfq_inv_def)
qed

lemma demo_names: "vm_names (demo nm) = [''vmA'', ''vmB'']"
  by (simp add: vmA_def vmB_def)

lemma demo_runs:
  obtains h w' where "Run (demo nm) w = Some (Inr (h, w'))"
proof -
  obtain r where r: "Run (demo nm) w = Some r"
    using chosen.Run_returns [OF demo_fields(2) demo_scheduler demo_guests(1)] by blast
  then obtain h w' where "r = Inr (h, w')"
    using Run_no_abort [OF demo_guests(2)] by (cases r) auto
  with r that show thesis by blast
qed

text \<open>Both guests halt with 42 in the registers 1 and 2, after four instructions each.\<close>

lemma demo_end:
  assumes "Run (demo nm) w = Some (Inr (h, w'))" and "i < 2"
  shows "status (vms h ! i) = Halted \<and> regs (vcpu (vms h ! i)) ! 1 = 42 \<and> regs (vcpu (vms h ! i)) ! 2 = 42 \<and>
    pc (vcpu (vms h ! i)) = 4"
proof -
  have f: "final_vm (vms (demo nm) ! i) = Inr (vms h ! i)"
    by (rule Run_final_vm [OF assms(1) demo_guests(3)]) (use assms(2) in simp)
  obtain c where c: "vms (demo nm) ! i = VirtualMachine_new c demo_code" "configMemoryBytes c = 64 * 1024"
  proof (cases "i = 0")
    case True
    then show thesis using that [of vmA] by (simp add: vmA_def VmConfig_init_def)
  next
    case False
    then have "i = 1" using assms(2) by simp
    then show thesis using that [of vmB] by (simp add: vmB_def VmConfig_init_def)
  qed
  obtain vm where "outcome (VirtualMachine_new c demo_code) [] = Inr (vm, demo_dump c)" "status vm = Halted"
    "regs (vcpu vm) ! 1 = 42" "regs (vcpu vm) ! 2 = 42" "pc (vcpu vm) = 4"
    using demo_outcome [OF c(2)] by blast
  with f c(1) show ?thesis
    by (simp add: final_vm_def)
qed

lemma demo_metrics:
  assumes "Run (demo nm) w = Some (Inr (h, w'))"
  shows "instructionsByVm (stats (metrics h)) = [''vmA'' \<mapsto> 4, ''vmB'' \<mapsto> 4]"
proof -
  let ?m = "instructionsByVm (stats (metrics h))"
  have "retired_count (metrics h) (vm_names (demo nm) ! i) = 4" if i: "i < 2" for i
  proof -
    have "surplus h i = surplus (demo nm) i" and n: "vm_names h = vm_names (demo nm)"
      using Run_surplus [OF assms Run_closing [OF assms demo_guests(3)], of i] i unfolding demo_names by simp_all
    moreover have "surplus (demo nm) i = 0"
      using i by (auto simp: surplus_def MetricsTracer_init_def nth_Cons split: nat.splits)
    ultimately show ?thesis
      using demo_end [OF assms i] by (simp add: surplus_def)
  qed
  from this [of 0] this [of 1] have c: "count_at ?m ''vmA'' = 4" "count_at ?m ''vmB'' = 4"
    by (simp_all only: demo_names) simp_all
  have "dom ?m \<subseteq> {''vmA'', ''vmB''}"
    using Run_counted [OF assms demo_guests(3)] by (simp only: demo_names) (simp add: MetricsTracer_init_def)
  then have "?m v = None" if "v \<noteq> ''vmA''" "v \<noteq> ''vmB''" for v
    using that by blast
  moreover have "?m ''vmA'' = Some 4" and "?m ''vmB'' = Some 4"
    using c by (auto simp: count_at_def split: option.splits)
  ultimately show ?thesis
    by (intro ext) simp
qed

text \<open>How the library iterates over a hash map: every entry once, in some order.\<close>

definition lists_entries :: "((string \<rightharpoonup> size_t) \<Rightarrow> (string \<times> size_t) list) \<Rightarrow> bool" where
  "lists_entries iteration \<longleftrightarrow>
     (\<forall>m. finite (dom m) \<longrightarrow> distinct (iteration m) \<and> set (iteration m) = {(k, v). m k = Some v})"

lemma two_entries:
  assumes "distinct xs" and "set xs = {a, b}" and "a \<noteq> b"
  shows "xs = [a, b] \<or> xs = [b, a]"
proof -
  have "length xs = 2"
    using distinct_card [OF assms(1)] assms(2,3) by simp
  then obtain x y where "xs = [x, y]"
    by (auto simp: length_Suc_conv numeral_2_eq_2)
  then show ?thesis
    using assms by auto
qed

text \<open>The console of the demo: the line of each guest, in one of the two orders.\<close>

lemma demo_outputs:
  assumes "Run (demo nm) w = Some (Inr (h, w'))"
  obtains dumps where "cout w' = cout w @ concat dumps"
    and "dumps = [demo_dump vmA, demo_dump vmB] \<or> dumps = [demo_dump vmB, demo_dump vmA]"
proof -
  from Run_console [OF assms demo_guests(3)] obtain log where
    log: "cout w' = cout w @ written log" "fst ` set log \<subseteq> {..<length (vms (demo nm))}"
      "list_all whole_lines (map snd log)"
    and said: "\<forall>i < length (vms (demo nm)). outcome (vms (demo nm) ! i) [] = Inr (vms h ! i, said i log)"
    by blast
  have "outcome (VirtualMachine_new vmA demo_code) [] = Inr (vms h ! 0, said 0 log)"
    "outcome (VirtualMachine_new vmB demo_code) [] = Inr (vms h ! 1, said 1 log)"
    using said [rule_format, of 0] said [rule_format, of 1] by simp_all
  then have s: "said 0 log = demo_dump vmA" "said 1 log = demo_dump vmB"
    using demo_outcome [of vmA] demo_outcome [of vmB] by (auto simp: vmA_def vmB_def VmConfig_init_def)
  define a where "a = ''[VM vmA] PC=3 R1=42 HI=0 LO=0''"
  define b where "b = ''[VM vmB] PC=3 R1=42 HI=0 LO=0''"
  have d: "demo_dump vmA = a @ ''\<newline>''" "demo_dump vmB = b @ ''\<newline>''"
    by (simp_all add: demo_dump_def vmA_def vmB_def a_def b_def)
  have "written log = said 0 log @ said 1 log \<or> written log = said 1 log @ said 0 log"
    by (rule two_speakers [OF log(3), where a = a and b = b]) (use log(2) s d in \<open>auto simp: a_def b_def\<close>)
  then show thesis
    using log(1) s that [of "[demo_dump vmA, demo_dump vmB]"] that [of "[demo_dump vmB, demo_dump vmA]"] by auto
qed

lemma main_returns:
  assumes "lists_entries iteration"
  shows "\<exists>dumps w' lines. main_program iteration args w = Some (Inr (0, w')) \<and>
    cout w' = cout w @ concat dumps @ ''Scheduler: '' @ (case args of [] \<Rightarrow> ''round_robin'' | a # _ \<Rightarrow> a)
      @ ''\<newline>'' @ concat lines \<and>
    (dumps = [demo_dump vmA, demo_dump vmB] \<or> dumps = [demo_dump vmB, demo_dump vmA]) \<and>
    (lines = [''vmA retired instructions: 4\<newline>'', ''vmB retired instructions: 4\<newline>''] \<or>
     lines = [''vmB retired instructions: 4\<newline>'', ''vmA retired instructions: 4\<newline>''])"
proof -
  let ?nm = "case args of [] \<Rightarrow> ''round_robin'' | a # _ \<Rightarrow> a" and ?m = "[''vmA'' \<mapsto> (4 :: size_t), ''vmB'' \<mapsto> 4]"
  obtain h w1 where r: "Run (demo ?nm) w = Some (Inr (h, w1))"
    by (rule demo_runs)
  have "distinct (iteration ?m) \<and> set (iteration ?m) = {(k, v). ?m k = Some v}"
    using assms by (simp add: lists_entries_def)
  moreover have "{(k, v). ?m k = Some v} = {(''vmA'', 4), (''vmB'', 4)}"
    by (auto split: if_splits)
  ultimately have it: "iteration ?m = [(''vmA'', 4), (''vmB'', 4)] \<or> iteration ?m = [(''vmB'', 4), (''vmA'', 4)]"
    by (intro two_entries) auto
  have lines_text: "retired_text (''vmA'', 4) = ''vmA retired instructions: 4\<newline>''"
    "retired_text (''vmB'', 4) = ''vmB retired instructions: 4\<newline>''"
    by (simp_all add: retired_text_def show_small)
  have "main_program iteration args w = Some (Inr (0, w1\<lparr>cout := cout w1 @ ''Scheduler: '' @ ?nm @ ''\<newline>''
      @ concat (map retired_text (iteration ?m))\<rparr>))"
    using r demo_metrics [OF r] by (simp add: main_program_def Let_def demo_parses)
  moreover obtain dumps where "cout w1 = cout w @ concat dumps"
    and "dumps = [demo_dump vmA, demo_dump vmB] \<or> dumps = [demo_dump vmB, demo_dump vmA]"
    by (rule demo_outputs [OF r])
  ultimately show ?thesis
    using it lines_text by (intro exI [of _ dumps] exI [of _ "w1\<lparr>cout := cout w1 @ ''Scheduler: '' @ ?nm @ ''\<newline>''
      @ concat (map retired_text (iteration ?m))\<rparr>"] exI [of _ "map retired_text (iteration ?m)"]) auto
qed

end
