(* ===== verification/Priority_Runs.thy ===== *)
theory Priority_Runs
  imports Main_Program
begin

text \<open>
  What the priority scheduler means for a run: a machine does not move while one of greater
  priority is live.
\<close>

text \<open>
  The scan keeps the greatest priority it has seen, which begins at \<open>-1000000\<close>, and a live machine
  that has it.
\<close>

lemma priority_scan_max:
  assumes "length pr = length st" and "k \<le> length st"
  shows "case foldl (priority_step st pr) (- 1000000, 0) [0..<k] of (p, b) \<Rightarrow>
    - 1000000 \<le> p \<and> (\<forall>j < k. live st j \<longrightarrow> pr ! j \<le> p) \<and> (- 1000000 < p \<longrightarrow> pr ! b = p)"
  using assms(2)
proof (induction k)
  case (Suc k)
  obtain p b where f: "foldl (priority_step st pr) (- 1000000, 0) [0..<k] = (p, b)"
    by (cases "foldl (priority_step st pr) (- 1000000, 0) [0..<k]")
  have k: "k < length st" and IH: "- 1000000 \<le> p" "\<forall>j < k. live st j \<longrightarrow> pr ! j \<le> p" "- 1000000 < p \<longrightarrow> pr ! b = p"
    using Suc f by simp_all
  show ?case
  proof (cases "live st k \<and> p < pr ! k")
    case True
    then have "priority_step st pr (p, b) k = (pr ! k, k)"
      using assms(1) k by (auto simp: priority_step_def live_def is_done_def)
    then show ?thesis
      using f IH True by (force simp: less_Suc_eq)
  next
    case False
    then have "priority_step st pr (p, b) k = (p, b)"
      using k by (auto simp: priority_step_def live_def is_done_def)
    then show ?thesis
      using f IH False by (auto simp: less_Suc_eq)
  qed
qed simp

lemma Priority_pick_not_lower:
  assumes "length pr = length st" and "live st j" and "- 1000000 < pr ! j" and "pr ! i < pr ! j"
  shows "fst (Priority_PickNext u st pr) \<noteq> i"
proof
  assume "fst (Priority_PickNext u st pr) = i"
  then have "snd (foldl (priority_step st pr) (- 1000000, 0) [0..<length st]) = i"
    by (simp add: Priority_PickNext_def)
  then obtain p where "foldl (priority_step st pr) (- 1000000, 0) [0..<length st] = (p, i)"
    by (metis prod.collapse)
  with priority_scan_max [OF assms(1) order_refl] assms(2-4) show False
    by (auto simp: live_def)
qed

text \<open>No step changes the configuration of a machine.\<close>

lemma precopy_config: "precopy_rounds n vm out = Inr (vm', out') \<Longrightarrow> config vm' = config vm"
  by (induction n arbitrary: vm out) (auto simp: outcome_simps dest: RunForSlice_frame(1))

lemma vm_step_config: "vm_step vm vm' \<Longrightarrow> config vm' = config vm"
proof (induction rule: vm_step.induct)
  case (migrate vm out k vm1 out1 target vm2 out2)
  then show ?case
    using RunForSlice_frame(1) [OF migrate(1)] precopy_config [OF migrate(3)]
    by (simp add: ClearMigrationIntent_def)
qed (rule RunForSlice_frame(1))

lemma Run_round_config:
  "Run_round h w = Inr (Some (h', w')) \<Longrightarrow> i < length (vms h) \<Longrightarrow> config (vms h' ! i) = config (vms h ! i)"
  by (rule Run_round_keeps [where P = "\<lambda>vm. config vm = config (vms h ! i)"]) (assumption | rule refl vm_step_config)+

lemma Priority_sched_pick:
  assumes "PickNext h = IScheduler_PickNext" and "sched h = Priority_sched"
  shows "fst (pick_of h) = fst (Priority_PickNext () (statuses h) (priorities h))" and "snd (pick_of h) = Priority_sched"
  using assms by simp_all

text \<open>As long as machine \<open>j\<close> is live, a machine \<open>i\<close> of lower priority is not touched.\<close>

lemma rounds_priority:
  assumes "round_step\<^sup>*\<^sup>* (h, w) (h', w')" and "PickNext h = IScheduler_PickNext" and "sched h = Priority_sched"
    and "i < length (vms h)" and "j < length (vms h)"
    and "priority (config (vms h ! i)) < priority (config (vms h ! j))" and "- 1000000 < priority (config (vms h ! j))"
    and "\<not> is_done (status (vms h' ! j))"
  shows "vms h' ! i = vms h ! i"
proof -
  let ?J = "\<lambda>h1 w1. PickNext h1 = IScheduler_PickNext \<and> sched h1 = Priority_sched \<and>
    length (vms h1) = length (vms h) \<and> config (vms h1 ! i) = config (vms h ! i) \<and>
    config (vms h1 ! j) = config (vms h ! j) \<and> (is_done (status (vms h1 ! j)) \<or> vms h1 ! i = vms h ! i)"
  have "?J h' w'"
  proof (rule rounds_keep [where P = ?J, OF assms(1)])
    show "?J h w" using assms(2,3) by simp
    show "?J h2 w2" if J: "?J h1 w1" and r: "Run_round h1 w1 = Inr (Some (h2, w2))" for h1 w1 h2 w2
    proof -
      note change = Run_round_vms [OF r]
      have p: "fst (pick_of h1) = fst (Priority_PickNext () (statuses h1) (priorities h1))"
        "snd (pick_of h1) = Priority_sched"
        using Priority_sched_pick J by simp_all
      have cfg: "config (vms h2 ! i) = config (vms h ! i)" "config (vms h2 ! j) = config (vms h ! j)"
        using Run_round_config [OF r] J assms(4,5) by simp_all
      have "is_done (status (vms h2 ! j)) \<or> vms h2 ! i = vms h ! i"
      proof (cases "is_done (status (vms h1 ! j))")
        case True
        then show ?thesis
          using change(3) by (cases "fst (pick_of h1) = j") (auto simp: live_statuses)
      next
        case False
        have "fst (pick_of h1) \<noteq> i"
          unfolding p(1)
        proof (rule Priority_pick_not_lower)
          show "live (statuses h1) j" using False J assms(5) by (simp add: live_statuses)
          show "- 1000000 < priorities h1 ! j" and "priorities h1 ! i < priorities h1 ! j"
            using J assms(4-7) by (simp_all add: priorities_def)
        qed simp
        then show ?thesis
          using change(3) J False by auto
      qed
      then show ?thesis
        using change(1,2) p(2) J cfg Run_round_length [OF r] by simp
    qed
  qed
  with assms(8) show ?thesis by simp
qed

end
