(* ===== verification/Run_Progress.thy ===== *)
theory Run_Progress
  imports Priority_Runs
begin

text \<open>
  Progress of the hypervisor: exactly when the loop returns and after how many rounds, how long a
  fair scheduler can pass over a guest that is still to run, and what a round does when a guest
  asks for its migration.
\<close>

section \<open>When the loop returns\<close>

text \<open>A guest that is in order, comes to an end when run alone, and has a slice that is not empty.\<close>

definition ending_guest :: "VirtualMachine \<Rightarrow> bool" where
  "ending_guest vm \<longleftrightarrow> rested vm \<and> finishes vm \<and> execSlice (config vm) \<noteq> 0"

lemma ending_slice:
  assumes "ending_guest vm" and "\<not> is_done (status vm)"
    and "RunForSlice (execSlice (config vm)) vm out = Inr (k, vm', out')"
  shows "pendingMigrationTarget vm' = None" and "instructions_left vm' < instructions_left vm"
proof -
  have g: "ok_vm vm" "pendingMigrationTarget vm = None" "0 < unat (execSlice (config vm))"
    using assms(1) by (simp_all add: ending_guest_def rested_def unat_gt_0)
  have "closing_guest vm"
    using assms(1) by (simp add: ending_guest_def closing_guest_def)
  then have "status vm' \<noteq> Blocked \<and> pendingMigrationTarget vm' = None"
    using closing_slice [OF _ assms(2,3)] by simp
  then show "pendingMigrationTarget vm' = None" and "instructions_left vm' < instructions_left vm"
    using g RunForSlice_account [OF g(1) assms(2,3)] RunForSlice_frame(2) [OF assms(3)] assms(2)
    by (cases "status vm'"; auto simp: instructions_left_def is_done_def)+
qed

lemma ending_step: "ending_guest vm \<Longrightarrow> vm_step vm vm' \<Longrightarrow> ending_guest vm'"
  using vm_step_keeps [of vm vm'] by (simp add: ending_guest_def finishes_def)

lemma ending_dispatch:
  assumes "ending_guest (vms h ! i)" and "i < length (vms h)" and "\<not> is_done (status (vms h ! i))"
  obtains h' w' where "dispatch i h w = Inr (h', w')" and "work_left h' < work_left h"
proof -
  let ?vm = "vms h ! i"
  obtain k vm' out' where r: "RunForSlice (execSlice (config ?vm)) ?vm (cout w) = Inr (k, vm', out')"
  proof (rule finishes_slice)
    show "finishes ?vm" and "ok_vm ?vm"
      using assms(1) by (simp_all add: ending_guest_def rested_def)
  qed
  note e = ending_slice [OF assms(1,3) r]
  then obtain h' w' where d: "dispatch i h w = Inr (h', w')" and v: "vms h' = (vms h)[i := vm']"
    using r by (simp add: dispatch_def Let_def)
  have "work_left h' < work_left h"
    using sum_list_update_less [OF assms(2) e(2)] by (simp add: work_left_def v)
  with d show thesis by (rule that)
qed

text \<open>The contract of the scheduler survives a round.\<close>

context scheduler
begin

lemma round_contract:
  assumes "Run_round h w = Inr (Some (h', w'))" and "PickNext h = pick"
    and "sinv (sched h) (statuses h) (priorities h)"
  shows "PickNext h' = pick" and "sinv (sched h') (statuses h') (priorities h')"
    and "live (statuses h) (fst (pick_of h))"
proof -
  have "\<not> allDone h"
    using assms(1) by (auto simp: Run_round_def)
  then obtain j where j: "live (statuses h) j"
    by (auto simp: not_allDone)
  then show l: "live (statuses h) (fst (pick_of h))"
    using picks_live [OF assms(3)] assms(2) by simp
  note change = Run_round_vms [OF assms(1)]
  then show "PickNext h' = pick"
    using assms(2) by simp
  have "later (statuses h) (statuses h')"
    using change(3) l later_statuses by blast
  then have "sinv (snd (pick_of h)) (statuses h') (priorities h)"
    using keeps_inv [OF assms(3) _ j] assms(2) by simp
  moreover have "priorities h' = priorities h"
    using Run_round_length [OF assms(1)] Run_round_config [OF assms(1)]
    by (intro nth_equalityI) (simp_all add: priorities_def)
  ultimately show "sinv (sched h') (statuses h') (priorities h')"
    using change(2) by simp
qed

text \<open>With guests that all come to an end the loop returns, after at most as many rounds as there is work.\<close>

lemma ending_run:
  assumes "PickNext h = pick" and "sinv (sched h) (statuses h) (priorities h)"
    and "list_all ending_guest (vms h)"
  shows "\<exists>n \<le> work_left h. \<exists>h' w'. (round_step ^^ n) (h, w) (h', w') \<and> Run_round h' w' = Inr None"
  using assms
proof (induction "work_left h" arbitrary: h w rule: less_induct)
  case less
  show ?case
  proof (cases "allDone h")
    case True
    then show ?thesis
      by (intro exI [of _ 0]) (auto simp: Run_round_def)
  next
    case False
    then obtain j where "live (statuses h) j"
      by (auto simp: not_allDone)
    then have l: "live (statuses h) (fst (pick_of h))"
      using picks_live [OF less.prems(2)] less.prems(1) by simp
    let ?h = "h\<lparr>sched := snd (pick_of h)\<rparr>" and ?i = "fst (pick_of h)"
    have "ending_guest (vms ?h ! ?i)" "?i < length (vms ?h)" "\<not> is_done (status (vms ?h ! ?i))"
      using l less.prems(3) by (simp_all add: live_statuses list_all_length)
    then obtain h1 w1 where d: "dispatch ?i ?h w = Inr (h1, w1)" and wl: "work_left h1 < work_left h"
      by (rule ending_dispatch [where w = w]) (simp add: work_left_def)
    have r: "Run_round h w = Inr (Some (h1, w1))"
      using d l False by (auto simp: Run_round_def Let_def split_beta live_statuses is_done_def)
    have "list_all ending_guest (vms h1)"
      by (rule Run_round_list_all [OF r less.prems(3)]) (rule ending_step)
    then obtain n h' w' where n: "n \<le> work_left h1" "(round_step ^^ n) (h1, w1) (h', w')" "Run_round h' w' = Inr None"
      using less.hyps [OF wl round_contract(1,2) [OF r less.prems(1,2)]] by blast
    have "round_step (h, w) (h1, w1)"
      using r by (simp add: round_step_iff)
    then have "(round_step ^^ Suc n) (h, w) (h', w')"
      using n(2) by (rule relpowp_Suc_I2)
    then show ?thesis
      using n(1,3) wl by (intro exI [of _ "Suc n"]) auto
  qed
qed

end

lemma good_guests_finish:
  assumes "PickNext h = IScheduler_PickNext" and "IScheduler_inv (sched h) (statuses h) (priorities h)"
    and "list_all good_guest (vms h)" and "list_all abort_free (vms h)"
  shows "list_all finishes (vms h)"
proof -
  have "list_all sound_guest (vms h)" and r: "list_all rested (vms h)"
    using assms(3,4) by (simp_all add: list_all_iff sound_guest_def good_guest_def)
  moreover obtain r where "Run h World_init = Some r"
    using chosen.Run_returns [OF assms(1-3)] by blast
  ultimately obtain h' w' where "Run h World_init = Some (Inr (h', w'))"
    using Run_no_abort [of h World_init] by (metis old.sum.exhaust surj_pair)
  then show ?thesis
    using r by (rule Run_finishes)
qed

lemma Run_returns_rounds:
  assumes "PickNext h = IScheduler_PickNext" and "IScheduler_inv (sched h) (statuses h) (priorities h)"
    and "list_all ending_guest (vms h)"
  obtains n h' w' where "n \<le> work_left h" and "(round_step ^^ n) (h, w) (h', w')" and "Run h w = Some (Inr (h', w'))"
proof -
  obtain n h' w' where n: "n \<le> work_left h" "(round_step ^^ n) (h, w) (h', w')" and stop: "Run_round h' w' = Inr None"
    using chosen.ending_run [OF assms] by blast
  have "Run h w = Run h' w'"
    using Run_steps [OF relpowp_imp_rtranclp [OF n(2)]] by simp
  then have "Run h w = Some (Inr (h', w'))"
    using Run_stop [OF stop] by simp
  with n show thesis by (rule that)
qed

section \<open>How long a guest can be passed over\<close>

text \<open>A round in which the scheduler chooses another machine.\<close>

definition overlooks ::
  "nat \<Rightarrow> ('s, 't) HypervisorCore \<times> World \<Rightarrow> ('s, 't) HypervisorCore \<times> World \<Rightarrow> bool" where
  "overlooks i s s' \<longleftrightarrow> round_step s s' \<and> fst (pick_of (fst s)) \<noteq> i"

lemma overlooks_rounds: "(overlooks i ^^ k) s s' \<Longrightarrow> round_step\<^sup>*\<^sup>* s s'"
proof (induction k arbitrary: s)
  case (Suc k)
  then obtain t where "round_step s t" and "round_step\<^sup>*\<^sup>* t s'"
    using relpowp_Suc_D2 [OF Suc.prems] by (auto simp: overlooks_def)
  then show ?case by (rule converse_rtranclp_into_rtranclp)
qed simp

lemma rounds_done:
  assumes "round_step\<^sup>*\<^sup>* (h, w) (h', w')" and "is_done (status (vms h ! i))"
  shows "vms h' ! i = vms h ! i"
proof (rule rounds_keep [OF assms(1)])
  show "vms h2 ! i = vms h ! i"
    if "vms h1 ! i = vms h ! i" and "Run_round h1 w1 = Inr (Some (h2, w2))" for h1 w1 h2 w2
    using Run_round_vms(3) [OF that(2)] that(1) assms(2)
    by (cases "fst (pick_of h1) = i") (auto simp: live_statuses)
qed simp

text \<open>As long as a guest is to run, the rounds that pass over it use up its rank.\<close>

context fair_scheduler
begin

lemma overlooked_rank:
  assumes "(overlooks i ^^ k) (h, w) (h', w')" and "PickNext h = pick"
    and "sinv (sched h) (statuses h) (priorities h)" and "i < length (vms h)"
    and "\<not> is_done (status (vms h' ! i))"
  shows "rank (sched h') (length (vms h)) i + k \<le> rank (sched h) (length (vms h)) i"
  using assms(1-4)
proof (induction k arbitrary: h w)
  case (Suc k)
  obtain h1 w1 where o: "overlooks i (h, w) (h1, w1)" and rest: "(overlooks i ^^ k) (h1, w1) (h', w')"
    using relpowp_Suc_D2 [OF Suc.prems(1)] by auto
  have r: "Run_round h w = Inr (Some (h1, w1))" and other: "fst (pick_of h) \<noteq> i"
    using o by (simp_all add: overlooks_def round_step_iff)
  note len = Run_round_length [OF r]
  have "live (statuses h) i"
    using rounds_done [OF overlooks_rounds [OF Suc.prems(1)], of i] Suc.prems(4) assms(5)
    by (auto simp: live_statuses)
  then have "rank (sched h1) (length (vms h)) i < rank (sched h) (length (vms h)) i"
    using rank_drops [OF Suc.prems(3), of i] other Suc.prems(2) Run_round_vms(2) [OF r] by simp
  moreover have "rank (sched h') (length (vms h)) i + k \<le> rank (sched h1) (length (vms h)) i"
    using Suc.IH [OF rest round_contract(1,2) [OF r Suc.prems(2,3)]] Suc.prems(4) len by simp
  ultimately show ?case by simp
qed simp

end

text \<open>The queues of the multi-level scheduler hold no more entries than there are machines.\<close>

definition mlfq_short :: "MlfqScheduler \<Rightarrow> nat \<Rightarrow> bool" where
  "mlfq_short q n \<longleftrightarrow> (initialized q \<longrightarrow> length (high q) + length (mid q) + length (low q) \<le> n)"

lemma mlfq_short_ready:
  "mlfq_short q n \<Longrightarrow>
   length (high (ready_queues q n)) + length (mid (ready_queues q n)) + length (low (ready_queues q n)) \<le> n"
  by (simp add: mlfq_short_def ready_queues_def RebuildQueues_def)

lemma mlfq_short_pick:
  assumes "mlfq_inv q st pr" and "live st i" and "mlfq_short q (length st)"
  shows "mlfq_short (snd (Mlfq_PickNext q st pr)) (length st)"
  using assms(1,2)
proof (cases rule: Mlfq_pick)
  case (high ds c ys)
  then show ?thesis
    using mlfq_short_ready [OF assms(3)] by (simp add: mlfq_short_def)
next
  case (mid ds c ys)
  then show ?thesis
    using mlfq_short_ready [OF assms(3)] by (simp add: mlfq_short_def)
next
  case (low ds c ys)
  then show ?thesis
    using mlfq_short_ready [OF assms(3)] by (simp add: mlfq_short_def)
qed

text \<open>The two fair policies behind the interface.\<close>

fun fair_inv :: "IScheduler \<Rightarrow> VmStatus list \<Rightarrow> int list \<Rightarrow> bool" where
  "fair_inv (RoundRobin_sched c) st pr = True"
| "fair_inv Priority_sched st pr = False"
| "fair_inv (Mlfq_sched q) st pr = (mlfq_inv q st pr \<and> mlfq_short q (length st))"

fun fair_rank :: "IScheduler \<Rightarrow> nat \<Rightarrow> nat \<Rightarrow> nat" where
  "fair_rank (RoundRobin_sched c) n i = rr_rank c n i"
| "fair_rank Priority_sched n i = 0"
| "fair_rank (Mlfq_sched q) n i = mlfq_rank q n i"

interpretation fair: fair_scheduler IScheduler_PickNext fair_inv fair_rank
proof
  show "live st (fst (IScheduler_PickNext s st pr))"
    if "fair_inv s st pr" "length pr = length st" "live st i" for s st pr i
    using that by (cases s) (auto simp: split_beta intro: rr.picks_live mlfq.picks_live)
  show "fair_inv (snd (IScheduler_PickNext s st pr)) st' pr"
    if "fair_inv s st pr" "length pr = length st" "live st i" "later st st'" for s st pr i st'
  proof (cases s)
    case (Mlfq_sched q)
    moreover have "length st' = length st"
      using that(4) by (simp add: later_live)
    ultimately show ?thesis
      using that mlfq.keeps_inv [of q st pr i st'] mlfq_short_pick [of q st pr i] by (simp add: split_beta)
  qed (use that in \<open>simp_all add: split_beta\<close>)
  show "fair_rank (snd (IScheduler_PickNext s st pr)) (length st) i < fair_rank s (length st) i"
    if "fair_inv s st pr" "length pr = length st" "live st i" "fst (IScheduler_PickNext s st pr) \<noteq> i" for s st pr i
    using that by (cases s) (auto simp: split_beta intro: rr.rank_drops mlfq.rank_drops)
qed

text \<open>
  A guest that is to run is passed over in less rounds than there are machines under round robin,
  and in three times as many at most under the multi-level queue, wherever the run has got to.
\<close>

lemma fair_rank_bound:
  assumes "fair_inv s st pr" and "i < length st"
  shows "fair_rank s (length st) i \<le> 3 * length st"
    and "s = RoundRobin_sched c \<Longrightarrow> fair_rank s (length st) i < length st"
proof -
  have "0 < length st"
    using assms(2) by auto
  then have rr: "rr_rank d (length st) i < length st" for d
    by (rule rr_rank_less)
  show "fair_rank s (length st) i \<le> 3 * length st"
  proof (cases s)
    case (RoundRobin_sched d)
    then show ?thesis using rr [of d] by simp
  next
    case (Mlfq_sched q)
    then show ?thesis
      using assms(1) mlfq_rank_bound [of q "length st" i] mlfq_short_ready [of q "length st"]
      by simp
  qed simp
  show "fair_rank s (length st) i < length st" if "s = RoundRobin_sched c"
    using that rr by simp
qed

lemma fair_start: "nm \<noteq> ''priority'' \<Longrightarrow> fair_inv (BuildScheduler nm) st pr"
  by (simp add: BuildScheduler_def MlfqScheduler_init_def mlfq_inv_def mlfq_short_def)

lemma overlooked_guest:
  assumes "PickNext h0 = IScheduler_PickNext" and "sched h0 = BuildScheduler nm" and "nm \<noteq> ''priority''"
    and "round_step\<^sup>*\<^sup>* (h0, w0) (h, w)" and "(overlooks i ^^ k) (h, w) (h', w')"
    and "i < length (vms h0)" and "\<not> is_done (status (vms h' ! i))"
  shows "k \<le> 3 * length (vms h0)" and "nm \<noteq> ''mlfq'' \<Longrightarrow> k < length (vms h0)"
proof -
  let ?J = "\<lambda>h w. PickNext h = IScheduler_PickNext \<and> fair_inv (sched h) (statuses h) (priorities h) \<and>
    length (vms h) = length (vms h0) \<and> (nm \<noteq> ''mlfq'' \<longrightarrow> (\<exists>c. sched h = RoundRobin_sched c))"
  have J: "?J h w"
  proof (rule rounds_keep [where P = ?J, OF assms(4)])
    show "?J h0 w0"
      using assms(1-3) fair_start by (auto simp: BuildScheduler_def)
    show "?J h2 w2" if j: "?J h1 w1" and r: "Run_round h1 w1 = Inr (Some (h2, w2))" for h1 w1 h2 w2
      using j fair.round_contract(1,2) [OF r] Run_round_length [OF r] Run_round_vms(2) [OF r]
      by (auto simp: split_beta)
  qed
  then have k: "k \<le> fair_rank (sched h) (length (vms h)) i"
    using fair.overlooked_rank [OF assms(5), of] assms(6,7) by fastforce
  have "fair_rank (sched h) (length (statuses h)) i \<le> 3 * length (statuses h)"
    by (rule fair_rank_bound(1)) (use J assms(6) in auto)
  then show "k \<le> 3 * length (vms h0)"
    using k J by simp
  show "k < length (vms h0)" if "nm \<noteq> ''mlfq''"
  proof -
    obtain c where "sched h = RoundRobin_sched c"
      using J \<open>nm \<noteq> ''mlfq''\<close> by auto
    then have "fair_rank (sched h) (length (statuses h)) i < length (statuses h)"
      using J assms(6) by (intro fair_rank_bound(2)) auto
    then show ?thesis
      using k J by simp
  qed
qed

section \<open>A guest that cannot go on\<close>

text \<open>What a slice of a guest at a \<open>MIGRATE\<close> changes is its status and the target of its migration.\<close>

definition same_core :: "VirtualMachine \<Rightarrow> VirtualMachine \<Rightarrow> bool" where
  "same_core vm vm' \<longleftrightarrow> vcpu vm' = vcpu vm \<and> memory vm' = memory vm"

lemma parked_core:
  assumes "parked vm" and "RunForSlice n vm out = Inr (k, vm', out')"
  shows "same_core vm vm'"
proof (cases "n = 0")
  case True
  then show ?thesis
    using assms RunForSlice_0 [of vm out] by (auto simp: parked_def same_core_def)
next
  case False
  then show ?thesis
    using assms(2) RunForSlice_parked [OF assms(1) False, of out] by (auto simp: same_core_def)
qed

lemma parked_precopy_core:
  "parked vm \<Longrightarrow> precopy_rounds n vm out = Inr (vm', out') \<Longrightarrow> same_core vm vm'"
proof (induction n arbitrary: vm out)
  case (Suc n)
  then obtain k vm1 out1 where r: "RunForSlice 10 vm out = Inr (k, vm1, out1)"
    and p: "precopy_rounds n vm1 out1 = Inr (vm', out')"
    by (auto simp: outcome_simps)
  show ?case
    using Suc.IH [OF parked_RunForSlice(1) [OF Suc.prems(1) r] p] parked_core [OF Suc.prems(1) r]
    by (simp add: same_core_def)
qed (simp add: same_core_def)

lemma stuck_step_core:
  assumes "stuck vm" and "vm_step vm vm'"
  shows "same_core vm vm'"
  using stuck_cases [OF assms(1)]
proof
  assume p: "parked vm"
  from assms(2) show ?thesis
  proof cases
    case (slice out k out')
    show ?thesis by (rule parked_core [OF p slice(1)])
  next
    case (migrate out k vm1 out1 target vm2 out2)
    show ?thesis
      using parked_core [OF p migrate(2)] parked_precopy_core [OF parked_RunForSlice(1) [OF p migrate(2)] migrate(4)]
        migrate(1) by (simp add: same_core_def ClearMigrationIntent_def)
  qed
next
  assume i: "\<not> is_done (status vm) \<and> pc_nat vm < length (program vm) \<and>
    execSlice (config vm) = 0 \<and> pendingMigrationTarget vm = None"
  then have z: "RunForSlice (execSlice (config vm)) vm out = Inr (0, vm\<lparr>status := Ready\<rparr>, out)" for out
    using RunForSlice_0 by simp
  from assms(2) show ?thesis
  proof cases
    case (slice out k out')
    then show ?thesis using z [of out] by (auto simp: same_core_def)
  next
    case (migrate out k vm1 out1 target vm2 out2)
    then show ?thesis using z [of out] i by auto
  qed
qed

lemma stuck_rounds:
  assumes "round_step\<^sup>*\<^sup>* (h, w) (h', w')" and "i < length (vms h)" and "stuck (vms h ! i)"
  shows "stuck (vms h' ! i) \<and> same_core (vms h ! i) (vms h' ! i)"
proof -
  let ?P = "\<lambda>j vm. j = i \<longrightarrow> stuck vm \<and> same_core (vms h ! i) vm"
  have "?P i (vms h' ! i)"
  proof (rule rounds_keep_vms(2) [where P = ?P, OF assms(1) _ _ assms(2)])
    show "?P j vm'" if "?P j vm" "vm_step vm vm'" for j vm vm'
      using that stuck_step [OF _ that(2)] stuck_step_core [OF _ that(2)] by (auto simp: same_core_def)
  qed (use assms(3) in \<open>simp add: same_core_def\<close>)
  then show ?thesis by simp
qed

section \<open>When a slice reaches a \<open>MIGRATE\<close>\<close>

text \<open>
  Whether one of the first \<open>n\<close> instructions that are left is a \<open>MIGRATE\<close> and each one before it
  retires.
\<close>

fun reaches_migrate :: "nat \<Rightarrow> Instruction list \<Rightarrow> VirtualMachine \<Rightarrow> bool" where
  "reaches_migrate n [] vm \<longleftrightarrow> False"
| "reaches_migrate 0 (i # is) vm \<longleftrightarrow> False"
| "reaches_migrate (Suc n) (i # is) vm \<longleftrightarrow>
     opcode i = Migrate \<or>
     (case ExecuteOne i vm [] of
        Inl e \<Rightarrow> False
      | Inr (advanced, vm', out) \<Rightarrow> advanced \<noteq> 0 \<and> reaches_migrate n is vm')"

lemma reaches_migrate_0 [simp]: "\<not> reaches_migrate 0 is vm"
  by (cases "is") simp_all

lemma ExecuteOne_no_out:
  "ExecuteOne i vm out = Inr (k, vm', out') \<Longrightarrow> \<exists>o'. ExecuteOne i vm [] = Inr (k, vm', o')"
  using ExecuteOne_out [of i vm out] by (auto simp: bind_cpp_eq_Inr prepend_out_def)

lemma run_loop_reaches:
  assumes "run_loop m k vm out = Inr (k', vm', out')" and "status vm = Running" and "length (program vm) < 2 ^ 64"
  shows "(status vm' = Blocked \<longleftrightarrow> reaches_migrate (m - k) (drop (pc_nat vm) (program vm)) vm) \<and>
    (status vm' = Blocked \<longrightarrow> pc_nat vm' < length (program vm'))"
proof -
  have "status vm = Running \<longrightarrow> length (program vm) < 2 ^ 64 \<longrightarrow>
    (case (k', vm', out') of (k', vm', out') \<Rightarrow>
       (status vm' = Blocked \<longleftrightarrow> reaches_migrate (m - k) (drop (pc_nat vm) (program vm)) vm) \<and>
       (status vm' = Blocked \<longrightarrow> pc_nat vm' < length (program vm')))"
    using assms(1)
  proof (induction rule: run_loop_induct)
    case (stop k vm out)
    then show ?case
      by (cases "k < m") auto
  next
    case (zero k vm out vm1 out1)
    obtain o' where e: "ExecuteOne (program vm ! pc_nat vm) vm [] = Inr (0, vm1, o')"
      using ExecuteOne_no_out [OF zero(3)] by blast
    have n: "m - k = Suc (m - Suc k)"
      using zero(1) by simp
    have "opcode (program vm ! pc_nat vm) = Migrate \<longleftrightarrow> status vm1 = Blocked"
      using zero(3) ExecuteOne_Blocked(1) [OF zero(3)] by (auto simp: ExecuteOne_Migrate)
    then show ?case
      using zero(2) e ExecuteOne_outcome [OF zero(3)] by (auto simp: n Cons_nth_drop_Suc [symmetric])
  next
    case (step k vm out vm1 out1 r)
    have o: "status vm1 = Running" "program vm1 = program vm" "pc (vcpu vm1) = pc (vcpu vm) + 1"
      using ExecuteOne_outcome [OF step(3)] by auto
    obtain o' where e: "ExecuteOne (program vm ! pc_nat vm) vm [] = Inr (1, vm1, o')"
      using ExecuteOne_no_out [OF step(3)] by blast
    have n: "m - k = Suc (m - Suc k)"
      using step(1) by simp
    have "opcode (program vm ! pc_nat vm) \<noteq> Migrate"
      using step(3) by (auto simp: ExecuteOne_Migrate)
    then show ?case
      using step(2,5) e o unat_pc_Suc [OF step(2)] by (auto simp: n Cons_nth_drop_Suc [symmetric] split: prod.splits)
  qed
  with assms(2,3) show ?thesis by simp
qed

lemma RunForSlice_reaches:
  assumes "ok_vm vm" and "\<not> is_done (status vm)" and "RunForSlice n vm out = Inr (k, vm', out')"
  shows "status vm' = Blocked \<longleftrightarrow>
    reaches_migrate (unat n) (drop (pc_nat vm) (program vm)) (vm\<lparr>status := Running\<rparr>)"
proof -
  obtain vm1 where r: "run_loop (unat n) 0 (vm\<lparr>status := Running\<rparr>) out = Inr (k, vm1, out')" and v: "vm' = settle vm1"
    using assms(2,3) by (auto simp: RunForSlice_Inr)
  have "length (program vm) < 2 ^ 64"
    using assms(1) by (simp add: ok_vm_def)
  with run_loop_reaches [OF r] show ?thesis
    by (auto simp: v settle_def)
qed

section \<open>A round with a migration\<close>

lemma precopy_waiting:
  assumes "parked vm" and "status vm = Blocked" and "pendingMigrationTarget vm = Some (target_of vm)"
  shows "precopy_rounds n vm out = Inr (vm, out)"
proof (induction n)
  case (Suc n)
  have "vm\<lparr>pendingMigrationTarget := Some (target_of vm), status := Blocked\<rparr> = vm"
    using assms(2,3) by (cases vm) simp
  then show ?case
    using Suc RunForSlice_parked [OF assms(1), of 10 out] by simp
qed simp

lemma Clear_fields [simp]:
  "vm_Snapshot (ClearMigrationIntent vm) = vm_Snapshot vm" "status (ClearMigrationIntent vm) = status vm"
  "program (ClearMigrationIntent vm) = program vm" "vcpu (ClearMigrationIntent vm) = vcpu vm"
  "config (ClearMigrationIntent vm) = config vm"
  by (simp_all add: ClearMigrationIntent_def vm_Snapshot_def)

text \<open>
  When the round ends with the chosen guest blocked, the guest stands at a \<open>MIGRATE\<close>, its snapshot
  went to the target the instruction names, and a failure was reported.
\<close>

lemma Run_round_migration:
  assumes "Run_round h w = Inr (Some (h', w'))" and "list_all rested (vms h)" and "fst (pick_of h) = i"
  shows "if live (statuses h) i \<and> status (vms h' ! i) = Blocked
    then parked (vms h' ! i) \<and>
      (\<exists>r. (r, transport_state (migrationService h')) =
             SendWithRetry (transport (migrationService h)) (target_of (vms h' ! i))
               (Serialize (vm_Snapshot (vms h' ! i))) (transport_state (migrationService h)) \<and>
           cerr w' = cerr w @ (case r of Inl error \<Rightarrow> migration_failed_text (name (config (vms h ! i))) error
                                       | Inr _ \<Rightarrow> []))
    else transport_state (migrationService h') = transport_state (migrationService h) \<and> cerr w' = cerr w"
  using assms(1)
proof (cases rule: Run_roundE)
  case (spins idx s)
  then show ?thesis
    using assms(3) by simp
next
  case (runs idx s)
  have i: "idx = i" "i < length (vms h)" "\<not> is_done (status (vms h ! i))"
    using runs(1,2) assms(3) by (simp_all add: live_statuses)
  have p: "pendingMigrationTarget (vms h ! i) = None"
    using assms(2) i(2) by (simp add: list_all_length rested_def)
  from runs(3) show ?thesis
  proof (cases rule: dispatchE)
    case (stays k vm out)
    then have r: "RunForSlice (execSlice (config (vms h ! i))) (vms h ! i) (cout w) = Inr (k, vm, out)"
      using i(1) by simp
    have "status vm \<noteq> Blocked"
      using RunForSlice_target [OF r i(3)] stays(2) by auto
    then show ?thesis
      using stays(3,4) i by simp
  next
    case (migrates k vm out target r vm2 ms w2)
    then have s: "RunForSlice (execSlice (config (vms h ! i))) (vms h ! i) (cout w) = Inr (k, vm, out)"
      using i(1) by simp
    then have v: "parked vm" "status vm = Blocked" "pendingMigrationTarget vm = Some (target_of vm)"
      using RunForSlice_target [OF s i(3)] migrates(2) p by simp_all
    note pre = PreCopyMigrate_Inr [OF migrates(3)]
    have vm2: "vm2 = vm"
      using pre(1) precopy_waiting [OF v] by simp
    have "(r, transport_state ms) = SendWithRetry (transport (migrationService h)) (target_of vm)
        (Serialize (vm_Snapshot vm)) (transport_state (migrationService h))"
      using pre(2) migrates(2) v(3) vm2 by simp
    moreover have "cerr w' = cerr w @ (case r of Inl error \<Rightarrow> migration_failed_text (name (config (vms h ! i))) error
                                       | Inr _ \<Rightarrow> [])"
      using migrates(5) pre(6) vm2 RunForSlice_frame(1) [OF s] by (simp split: sum.splits)
    ultimately show ?thesis
      using migrates(4) i v runs(2) vm2 by (simp only: if_True simp_thms) (auto simp: live_statuses)
  qed
qed

text \<open>So the round migrates the guest exactly when its slice reaches a \<open>MIGRATE\<close>.\<close>

lemma Run_round_blocked:
  assumes "Run_round h w = Inr (Some (h', w'))" and "list_all rested (vms h)" and "fst (pick_of h) = i"
    and "live (statuses h) i"
  shows "status (vms h' ! i) = Blocked \<longleftrightarrow>
    reaches_migrate (unat (execSlice (config (vms h ! i)))) (drop (pc_nat (vms h ! i)) (program (vms h ! i)))
      ((vms h ! i)\<lparr>status := Running\<rparr>)"
  using assms(1)
proof (cases rule: Run_roundE)
  case (spins idx s)
  then show ?thesis
    using assms(3,4) by simp
next
  case (runs idx s)
  have i: "idx = i" "i < length (vms h)" "\<not> is_done (status (vms h ! i))"
    using runs(1,2) assms(3) by (simp_all add: live_statuses)
  have p: "pendingMigrationTarget (vms h ! i) = None" "ok_vm (vms h ! i)"
    using assms(2) i(2) by (simp_all add: list_all_length rested_def)
  from runs(3) show ?thesis
  proof (cases rule: dispatchE)
    case (stays k vm out)
    then have r: "RunForSlice (execSlice (config (vms h ! i))) (vms h ! i) (cout w) = Inr (k, vm, out)"
      using i(1) by simp
    show ?thesis
      using RunForSlice_reaches [OF p(2) i(3) r] stays(3) i by simp
  next
    case (migrates k vm out target r vm2 ms w2)
    then have s: "RunForSlice (execSlice (config (vms h ! i))) (vms h ! i) (cout w) = Inr (k, vm, out)"
      using i(1) by simp
    then have v: "parked vm" "status vm = Blocked" "pendingMigrationTarget vm = Some (target_of vm)"
      using RunForSlice_target [OF s i(3)] migrates(2) p by simp_all
    have "vm2 = vm"
      using PreCopyMigrate_Inr(1) [OF migrates(3)] precopy_waiting [OF v] by simp
    then show ?thesis
      using RunForSlice_reaches [OF p(2) i(3) s] migrates(4) i v(2) by simp
  qed
qed

end
