(* ===== verification/Snapshot_Service.thy ===== *)
theory Snapshot_Service
  imports Host
begin

text \<open>
  Snapshots in a text file: \<open>include/snapshot/snapshot_service.hpp\<close> and
  \<open>src/snapshot/snapshot_service.cpp\<close>. The error string is the left side of a result.
\<close>

section \<open>The code\<close>

definition snapshot_text :: "VmSnapshot \<Rightarrow> string" where
  "snapshot_text s =
     vmName s @ ''\<newline>''
     @ show_nat (unat (pc (cpu s))) @ '' '' @ show_int (sint (hi (cpu s))) @ '' ''
     @ show_int (sint (lo (cpu s))) @ ''\<newline>''
     @ concat (map (\<lambda>r. show_int (sint r) @ '' '') (regs (cpu s))) @ ''\<newline>''
     @ show_nat (length (memoryBytes s)) @ ''\<newline>''
     @ concat (map (\<lambda>b. show_int (sint (ucast b :: i32)) @ '' '') (memoryBytes s)) @ ''\<newline>''"

definition Save :: "VmSnapshot \<Rightarrow> string \<Rightarrow> World \<Rightarrow> (string + unit) \<times> World" where
  "Save s path w =
     (if \<not> writable w path then (Inl ''failed to open snapshot file for write'', w)
      else (Inr (), w\<lparr>files := (files w)(path \<mapsto> snapshot_text s)\<rparr>))"

text \<open>The loop over the register array, each element keeping its value where the stream fails.\<close>

fun load_regs :: "i32 list \<Rightarrow> istream \<Rightarrow> i32 list \<times> istream" where
  "load_regs [] inp = ([], inp)"
| "load_regs (r # rs) inp =
     (let (r', inp) = extract_i32 r inp; (rs', inp) = load_regs rs inp in (r' # rs', inp))"

fun load_bytes :: "nat \<Rightarrow> istream \<Rightarrow> byte list \<times> istream" where
  "load_bytes 0 inp = ([], inp)"
| "load_bytes (Suc n) inp =
     (let (val, inp) = extract_i32 0 inp; (bs, inp) = load_bytes n inp in (ucast val # bs, inp))"

text \<open>A vector of bytes has at most \<open>2 ^ 63 - 1\<close> elements; \<open>assign\<close> throws for a larger size.\<close>

definition max_vector :: nat where
  "max_vector = 2 ^ 63 - 1"

definition Load :: "string \<Rightarrow> VmSnapshot \<Rightarrow> World \<Rightarrow> ((string + unit) \<times> VmSnapshot) cpp" where
  "Load path s w =
     (case files w path of
        None \<Rightarrow> Inr (Inl ''failed to open snapshot file for read'', s)
      | Some text \<Rightarrow>
          let (nm, inp) = getline (CHR ''\<newline>'') (vmName s) (istringstream text);
              (pc', inp) = extract_size (pc (cpu s)) inp;
              (hi', inp) = extract_i32 (hi (cpu s)) inp;
              (lo', inp) = extract_i32 (lo (cpu s)) inp;
              (regs', inp) = load_regs (regs (cpu s)) inp;
              (n, inp) = extract_size 0 inp
          in if unat n > max_vector then Inl Uncaught_Exception
             else Inr (Inr (),
               s\<lparr>vmName := nm, cpu := \<lparr>regs = regs', hi = hi', lo = lo', pc = pc'\<rparr>,
                 memoryBytes := fst (load_bytes (unat n) inp)\<rparr>))"

section \<open>Round trip\<close>

lemma load_regs_text:
  "is_space c \<Longrightarrow> length rs' = length rs \<Longrightarrow>
   load_regs rs' (stream (c # concat (map (\<lambda>r. show_int (sint r) @ '' '') rs) @ CHR ''\<newline>'' # rest)) =
     (rs, stream ((if rs = [] then c # CHR ''\<newline>'' # rest else CHR '' '' # CHR ''\<newline>'' # rest)))"
proof (induction rs arbitrary: rs' c)
  case (Cons r rs)
  obtain q qs where q: "rs' = q # qs" and qs: "length qs = length rs"
    using Cons.prems(2) by (cases rs') auto
  show ?case
    using Cons.IH [of "CHR '' ''" qs] Cons.prems(1) qs by (simp add: q)
qed simp

lemma sint_ucast_byte: "ucast (ucast (b :: byte) :: i32) = b"
  by transfer simp

lemma load_bytes_text:
  "is_space c \<Longrightarrow>
   fst (load_bytes (length bs) (stream (c # concat (map (\<lambda>b. show_int (sint (ucast b :: i32)) @ '' '') bs)
          @ ''\<newline>''))) = bs"
proof (induction bs arbitrary: c)
  case (Cons b bs)
  show ?case
    using Cons.IH [of "CHR '' ''"] Cons.prems by (simp add: split_beta sint_ucast_byte)
qed simp

text \<open>Snapshots that survive a file: the name is one line and the memory fits a vector.\<close>

definition savable :: "VmSnapshot \<Rightarrow> bool" where
  "savable s \<longleftrightarrow> CHR ''\<newline>'' \<notin> set (vmName s) \<and> length (memoryBytes s) \<le> max_vector"

lemma getline_stream:
  "c \<notin> set l \<Longrightarrow> getline c old (stream (l @ c # rest)) = (l, stream rest)"
  by (simp add: getline_def good_def takeWhile_append dropWhile_append)

lemma Load_Save:
  assumes "savable s" and "writable w path" and "length (regs (cpu t)) = length (regs (cpu s))"
    and "regs (cpu s) \<noteq> []"
  shows "\<exists>w'. Save s path w = (Inr (), w') \<and>
           Load path t w' = Inr (Inr (), s\<lparr>pageTable := pageTable t\<rparr>)"
proof -
  let ?n = "length (memoryBytes s)"
  have n: "unat (of_nat ?n :: size_t) = ?n"
    using assms(1) by (simp add: savable_def max_vector_def unat_of_nat)
  have size: "extract_size 0 (stream (show_nat ?n @ CHR ''\<newline>'' # rest)) =
      (of_nat ?n, stream (CHR ''\<newline>'' # rest))" for rest
    using extract_size_show [of "CHR ''\<newline>'' # rest" 0 "of_nat ?n"] n by simp
  note regs = load_regs_text [OF is_space_blank(2) assms(3)]
  show ?thesis
    using assms(1,2,4)
    by (simp add: Save_def Load_def snapshot_text_def istringstream_def savable_def getline_stream
        regs size n load_bytes_text VmSnapshot_eqI)
qed

lemma Load_missing: "files w path = None \<Longrightarrow> Load path t w = Inr (Inl ''failed to open snapshot file for read'', t)"
  by (simp add: Load_def)

end
