(* ===== verification/Legacy_Machine.thy ===== *)
theory Legacy_Machine
  imports Host
begin

text \<open>
  The machine of the single-file programs \<open>project.cc\<close>, \<open>homework1.cc\<close> and the client and server
  of homeworks 2 and 3, which all repeat the class \<open>VmClass\<close>, its operations and the decoding of
  an instruction line word for word. \<open>project.cc\<close> has the class without the members the others
  add, which are record extensions in the theories of those programs.

  An index outside the register array, signed overflow and a shift by 32 or more are undefined
  behaviour. A left shift of a negative number is the shift of its bits, and an unsigned value
  stored in an \<open>int\<close> is taken modulo \<open>2 ^ 32\<close>, as the compilers the programs name define it.
\<close>

section \<open>The code\<close>

text \<open>A member without an initializer has no value (\<open>None\<close>) until it is assigned.\<close>

record VmClass =
  registers :: "i32 list"
  hi_reg :: i32
  low_reg :: i32
  vm_exec_slice_in_instructions :: "int option"
  vm_binary :: string

definition VmClass_init :: VmClass where
  "VmClass_init =
     \<lparr>registers = replicate 32 0, hi_reg = 0, low_reg = 0, vm_exec_slice_in_instructions = None, vm_binary = []\<rparr>"

definition reg_at :: "int \<Rightarrow> 'a VmClass_scheme \<Rightarrow> i32 cpp" where
  "reg_at i obj =
     (if 0 \<le> i \<and> nat i < length (registers obj) then Inr (registers obj ! nat i) else Inl UB_Bounds)"

definition set_reg :: "int \<Rightarrow> i32 \<Rightarrow> 'a VmClass_scheme \<Rightarrow> 'a VmClass_scheme cpp" where
  "set_reg i v obj =
     (if 0 \<le> i \<and> nat i < length (registers obj) then Inr (obj\<lparr>registers := (registers obj)[nat i := v]\<rparr>)
      else Inl UB_Bounds)"

definition li :: "int \<Rightarrow> int \<Rightarrow> 'a VmClass_scheme \<Rightarrow> 'a VmClass_scheme cpp" where
  "li rs val obj = set_reg rs (word_of_int val) obj"

definition reg_reg :: "(i32 \<Rightarrow> i32 \<Rightarrow> i32 cpp) \<Rightarrow> int \<Rightarrow> int \<Rightarrow> int \<Rightarrow> 'a VmClass_scheme \<Rightarrow> 'a VmClass_scheme cpp" where
  "reg_reg f rd rs rt obj =
     bind_cpp (reg_at rs obj) (\<lambda>a. bind_cpp (reg_at rt obj) (\<lambda>b. bind_cpp (f a b) (\<lambda>c. set_reg rd c obj)))"

definition reg_imm :: "(i32 \<Rightarrow> i32 cpp) \<Rightarrow> int \<Rightarrow> int \<Rightarrow> 'a VmClass_scheme \<Rightarrow> 'a VmClass_scheme cpp" where
  "reg_imm f rt rs obj = bind_cpp (reg_at rs obj) (\<lambda>a. bind_cpp (f a) (\<lambda>c. set_reg rt c obj))"

definition add :: "int \<Rightarrow> int \<Rightarrow> int \<Rightarrow> 'a VmClass_scheme \<Rightarrow> 'a VmClass_scheme cpp" where
  "add rd rs rt obj = reg_reg add32 rd rs rt obj"

definition xorop :: "int \<Rightarrow> int \<Rightarrow> int \<Rightarrow> 'a VmClass_scheme \<Rightarrow> 'a VmClass_scheme cpp" where
  "xorop rd rs rt obj = reg_reg (\<lambda>a b. Inr (a XOR b)) rd rs rt obj"

definition sub :: "int \<Rightarrow> int \<Rightarrow> int \<Rightarrow> 'a VmClass_scheme \<Rightarrow> 'a VmClass_scheme cpp" where
  "sub rd rs rt obj = reg_reg sub32 rd rs rt obj"

definition addi :: "int \<Rightarrow> int \<Rightarrow> int \<Rightarrow> 'a VmClass_scheme \<Rightarrow> 'a VmClass_scheme cpp" where
  "addi rt rs immediate obj = reg_imm (\<lambda>a. add32 a (word_of_int immediate)) rt rs obj"

definition addu :: "int \<Rightarrow> int \<Rightarrow> int \<Rightarrow> 'a VmClass_scheme \<Rightarrow> 'a VmClass_scheme cpp" where
  "addu rd rs rt obj = reg_reg (\<lambda>a b. Inr (a + b)) rd rs rt obj"

definition subu :: "int \<Rightarrow> int \<Rightarrow> int \<Rightarrow> 'a VmClass_scheme \<Rightarrow> 'a VmClass_scheme cpp" where
  "subu rd rs rt obj = reg_reg (\<lambda>a b. Inr (a - b)) rd rs rt obj"

definition addiu :: "int \<Rightarrow> int \<Rightarrow> int \<Rightarrow> 'a VmClass_scheme \<Rightarrow> 'a VmClass_scheme cpp" where
  "addiu rt rs immediate obj = reg_imm (\<lambda>a. Inr (a + word_of_int immediate)) rt rs obj"

definition mul :: "int \<Rightarrow> int \<Rightarrow> int \<Rightarrow> 'a VmClass_scheme \<Rightarrow> 'a VmClass_scheme cpp" where
  "mul rd rs rt obj = reg_reg (\<lambda>a b. bind_cpp (mul32 a b) (\<lambda>result. Inr (result AND 0xFFFFFFFF))) rd rs rt obj"

definition mult :: "int \<Rightarrow> int \<Rightarrow> 'a VmClass_scheme \<Rightarrow> 'a VmClass_scheme cpp" where
  "mult rs rt obj =
     bind_cpp (reg_at rs obj) (\<lambda>op1. bind_cpp (reg_at rt obj) (\<lambda>op2.
     let result = (scast op1 :: 64 word) * scast op2
     in Inr (obj\<lparr>hi_reg := ucast (signed_drop_bit 32 result), low_reg := ucast (result AND 0xFFFFFFFF)\<rparr>)))"

text \<open>A division by zero prints to \<open>std::cerr\<close> and ends the program.\<close>

definition divi :: "int \<Rightarrow> int \<Rightarrow> 'a VmClass_scheme \<Rightarrow> 'a VmClass_scheme cpp" where
  "divi rs rt obj =
     bind_cpp (reg_at rt obj) (\<lambda>b.
     if b = 0 then Inl (Exit 1)
     else bind_cpp (reg_at rs obj) (\<lambda>a. bind_cpp (div32 a b) (\<lambda>q. bind_cpp (rem32 a b) (\<lambda>r.
          Inr (obj\<lparr>low_reg := q, hi_reg := r\<rparr>)))))"

text \<open>The operations whose operands are declared \<open>uint32_t\<close>.\<close>

definition AND_reg :: "u32 \<Rightarrow> u32 \<Rightarrow> u32 \<Rightarrow> 'a VmClass_scheme \<Rightarrow> 'a VmClass_scheme cpp" where
  "AND_reg rd rs rt obj = reg_reg (\<lambda>a b. Inr (a AND b)) (uint rd) (uint rs) (uint rt) obj"

definition OR_reg :: "u32 \<Rightarrow> u32 \<Rightarrow> u32 \<Rightarrow> 'a VmClass_scheme \<Rightarrow> 'a VmClass_scheme cpp" where
  "OR_reg rd rs rt obj = reg_reg (\<lambda>a b. Inr (a OR b)) (uint rd) (uint rs) (uint rt) obj"

definition ANDI :: "u32 \<Rightarrow> u32 \<Rightarrow> u32 \<Rightarrow> 'a VmClass_scheme \<Rightarrow> 'a VmClass_scheme cpp" where
  "ANDI rt rs imm obj = reg_imm (\<lambda>a. Inr (a AND imm)) (uint rt) (uint rs) obj"

definition ORI :: "u32 \<Rightarrow> u32 \<Rightarrow> u32 \<Rightarrow> 'a VmClass_scheme \<Rightarrow> 'a VmClass_scheme cpp" where
  "ORI rt rs imm obj = reg_imm (\<lambda>a. Inr (a OR imm)) (uint rt) (uint rs) obj"

definition SLL :: "u32 \<Rightarrow> u32 \<Rightarrow> u32 \<Rightarrow> 'a VmClass_scheme \<Rightarrow> 'a VmClass_scheme cpp" where
  "SLL rd rt imm obj =
     reg_imm (\<lambda>a. if imm < 32 then Inr (push_bit (unat imm) a) else Inl UB_Shift) (uint rd) (uint rt) obj"

text \<open>The register is a signed \<open>int\<close>, so its right shift is arithmetic.\<close>

definition SRL :: "u32 \<Rightarrow> u32 \<Rightarrow> u32 \<Rightarrow> 'a VmClass_scheme \<Rightarrow> 'a VmClass_scheme cpp" where
  "SRL rd rt imm obj =
     reg_imm (\<lambda>a. if imm < 32 then Inr (signed_drop_bit (unat imm) a) else Inl UB_Shift) (uint rd) (uint rt) obj"

text \<open>The text of the registers, which dumps and snapshots share.\<close>

definition register_lines :: "'a VmClass_scheme \<Rightarrow> string list" where
  "register_lines obj =
     map (\<lambda>i. CHR ''R'' # show_nat i @ ''='' @ show_int (sint (registers obj ! i))) [0..<32]
     @ [''hi='' @ show_int (sint (hi_reg obj)), ''low='' @ show_int (sint (low_reg obj))]"

definition print_lines :: "string list \<Rightarrow> string" where
  "print_lines ls = concat (map (\<lambda>l. l @ ''\<newline>'') ls)"

definition dumpstate :: "'a VmClass_scheme \<Rightarrow> string" where
  "dumpstate obj = print_lines (register_lines obj) @ ''\<newline>''"

section \<open>Decoding a line\<close>

text \<open>\<open>s.substr (s.find (c) + 1)\<close>: what follows the first \<open>c\<close>, or all of \<open>s\<close> when there is none.\<close>

definition after_char :: "char \<Rightarrow> string \<Rightarrow> string" where
  "after_char c s = (if c \<in> set s then tl (dropWhile (\<lambda>x. x \<noteq> c) s) else s)"

abbreviation after_dollar :: "string \<Rightarrow> string" where
  "after_dollar \<equiv> after_char (CHR ''$'')"

text \<open>The four \<open>getline\<close> calls at the beginning of \<open>solve\<close>.\<close>

definition line_fields :: "string \<Rightarrow> string \<times> string \<times> string \<times> string" where
  "line_fields line =
     (let ss = istringstream line;
          (opc, ss) = getline (CHR '' '') [] ss;
          (destRegister, ss) = getline (CHR '','') [] ss;
          (srcReg1, ss) = getline (CHR '','') [] ss;
          (srcReg2, ss) = getline (CHR ''\<newline>'') [] ss
      in (opc, destRegister, srcReg1, srcReg2))"

text \<open>The two shapes of a branch of \<open>solve\<close>: two numbers after the destination, or one.\<close>

definition two_operands ::
  "string \<Rightarrow> string \<Rightarrow> (int \<Rightarrow> int \<Rightarrow> 'a VmClass_scheme cpp) \<Rightarrow> 'a VmClass_scheme cpp" where
  "two_operands s1 s2 f = bind_cpp (stoi s1) (\<lambda>a. bind_cpp (stoi s2) (\<lambda>b. f a b))"

definition one_operand :: "string \<Rightarrow> (int \<Rightarrow> 'a VmClass_scheme cpp) \<Rightarrow> 'a VmClass_scheme cpp" where
  "one_operand s1 f = bind_cpp (stoi s1) f"

text \<open>
  The rest of \<open>solve\<close>: the branches on the opcode. They are separate \<open>if\<close>s over one string, so at
  most one is taken; an unknown opcode does nothing.
\<close>

definition exec_op :: "string \<Rightarrow> int \<Rightarrow> string \<Rightarrow> string \<Rightarrow> 'a VmClass_scheme \<Rightarrow> 'a VmClass_scheme cpp" where
  "exec_op opc d srcReg1 srcReg2 obj =
    (let r1 = after_dollar srcReg1; r2 = after_dollar srcReg2; u = (\<lambda>k. word_of_int k :: u32) in
     if opc = ''li'' then one_operand srcReg1 (\<lambda>a. li d a obj)
     else if opc = ''add'' then two_operands r1 r2 (\<lambda>a b. add d a b obj)
     else if opc = ''addi'' then two_operands r1 srcReg2 (\<lambda>a b. addi d a b obj)
     else if opc = ''addu'' then two_operands r1 r2 (\<lambda>a b. addu d a b obj)
     else if opc = ''subu'' then two_operands r1 r2 (\<lambda>a b. subu d a b obj)
     else if opc = ''addiu'' then two_operands r1 srcReg2 (\<lambda>a b. addiu d a b obj)
     else if opc = ''mul'' then two_operands r1 r2 (\<lambda>a b. mul d a b obj)
     else if opc = ''mult'' then one_operand r1 (\<lambda>a. mult d a obj)
     else if opc = ''div'' then one_operand r1 (\<lambda>a. divi d a obj)
     else if opc = ''and'' then two_operands r1 r2 (\<lambda>a b. AND_reg (u d) (u a) (u b) obj)
     else if opc = ''or'' then
       (if CHR ''$'' \<in> set srcReg2 then two_operands r1 r2 (\<lambda>a b. OR_reg (u d) (u a) (u b) obj)
        else two_operands r1 srcReg2 (\<lambda>a b. ORI (u d) (u a) (u b) obj))
     else if opc = ''andi'' then two_operands r1 srcReg2 (\<lambda>a b. ANDI (u d) (u a) (u b) obj)
     else if opc = ''sll'' then two_operands r1 srcReg2 (\<lambda>a b. SLL (u d) (u a) (u b) obj)
     else if opc = ''srl'' then two_operands r1 srcReg2 (\<lambda>a b. SRL (u d) (u a) (u b) obj)
     else if opc = ''sub'' then two_operands r1 r2 (\<lambda>a b. sub d a b obj)
     else if opc = ''xor'' then two_operands r1 r2 (\<lambda>a b. xorop d a b obj)
     else Inr obj)"

text \<open>What \<open>solve\<close> does with a line that is not one of its special commands.\<close>

definition exec_line :: "string \<Rightarrow> 'a VmClass_scheme \<Rightarrow> 'a VmClass_scheme cpp" where
  "exec_line line obj =
     (case line_fields line of
        (opc, destRegister, srcReg1, srcReg2) \<Rightarrow>
          bind_cpp (stoi (after_dollar destRegister)) (\<lambda>destReg. exec_op opc destReg srcReg1 srcReg2 obj))"

section \<open>Facts\<close>

text \<open>A well-formed machine has its 32 registers, and every operation keeps them.\<close>

definition wf_class :: "'a VmClass_scheme \<Rightarrow> bool" where
  "wf_class obj \<longleftrightarrow> length (registers obj) = 32"

lemma wf_class_init [inv_intros]: "wf_class VmClass_init"
  by (simp add: wf_class_def VmClass_init_def)

lemma set_reg_Inr:
  "set_reg i v obj = Inr obj' \<longleftrightarrow>
     0 \<le> i \<and> nat i < length (registers obj) \<and> obj' = obj\<lparr>registers := (registers obj)[nat i := v]\<rparr>"
  by (auto simp: set_reg_def)

lemmas legacy_ops =
  li_def reg_reg_def reg_imm_def add_def xorop_def sub_def addi_def addu_def subu_def addiu_def mul_def
  mult_def divi_def AND_reg_def OR_reg_def ANDI_def ORI_def SLL_def SRL_def

text \<open>An instruction line only touches the registers, \<open>hi\<close> and \<open>low\<close>.\<close>

definition only_processor :: "'a VmClass_scheme \<Rightarrow> 'a VmClass_scheme \<Rightarrow> bool" where
  "only_processor obj obj' \<longleftrightarrow>
     obj' = obj\<lparr>registers := registers obj', hi_reg := hi_reg obj', low_reg := low_reg obj'\<rparr> \<and>
     length (registers obj') = length (registers obj)"

lemma only_processor_refl [simp]: "only_processor obj obj"
  by (simp add: only_processor_def)

lemma only_processor_upd [simp]:
  "only_processor obj (obj\<lparr>registers := (registers obj)[i := v]\<rparr>)"
  "only_processor obj (obj\<lparr>hi_reg := h, low_reg := l\<rparr>)"
  "only_processor obj (obj\<lparr>low_reg := l, hi_reg := h\<rparr>)"
  by (simp_all add: only_processor_def)

lemma exec_op_processor:
  assumes "exec_op opc d s1 s2 obj = Inr obj'"
  shows "only_processor obj obj'"
proof -
  have r: "reg_reg f a b c obj = Inr obj' \<Longrightarrow> only_processor obj obj'" for f a b c
    by (auto simp: reg_reg_def outcome_simps set_reg_Inr)
  have i: "reg_imm f a b obj = Inr obj' \<Longrightarrow> only_processor obj obj'" for f a b
    by (auto simp: reg_imm_def outcome_simps set_reg_Inr)
  have m: "mult a b obj = Inr obj' \<Longrightarrow> only_processor obj obj'"
    "divi a b obj = Inr obj' \<Longrightarrow> only_processor obj obj'"
    "li a b obj = Inr obj' \<Longrightarrow> only_processor obj obj'" for a b
    by (auto simp: mult_def divi_def li_def outcome_simps set_reg_Inr Let_def split: if_splits)
  have two: "two_operands x y f = Inr obj' \<Longrightarrow> \<exists>a b. f a b = Inr obj'" for x y f
    by (auto simp: two_operands_def outcome_simps)
  have one: "one_operand x f = Inr obj' \<Longrightarrow> \<exists>a. f a = Inr obj'" for x f
    by (auto simp: one_operand_def outcome_simps)
  show ?thesis
    using assms
    unfolding exec_op_def Let_def add_def xorop_def sub_def addi_def addu_def subu_def addiu_def mul_def
      AND_reg_def OR_reg_def ANDI_def ORI_def SLL_def SRL_def
    by (auto split: if_splits dest!: two one r i m)
qed

lemma exec_line_processor: "exec_line line obj = Inr obj' \<Longrightarrow> only_processor obj obj'"
  by (cases "line_fields line") (auto simp: exec_line_def outcome_simps dest: exec_op_processor)

lemma wf_class_line [inv_intros]: "wf_class obj \<Longrightarrow> exec_line line obj = Inr obj' \<Longrightarrow> wf_class obj'"
  using exec_line_processor [of line obj obj'] by (simp add: wf_class_def only_processor_def)

text \<open>The product of \<open>mult\<close> is exact: \<open>hi\<close> and \<open>low\<close> together hold all 64 bits of it.\<close>

lemma sint_of_in_i64:
  "- 9223372036854775808 \<le> x \<Longrightarrow> x < 9223372036854775808 \<Longrightarrow> sint (word_of_int x :: 64 word) = x"
  by (simp add: sint_sbintrunc' signed_take_bit_int_eq_self)

lemma product_bounds:
  fixes a b :: i32
  shows "\<bar>sint a * sint b\<bar> \<le> 4611686018427387904"
proof -
  have "- (2 ^ 31) \<le> sint a" "sint a < 2 ^ 31" "- (2 ^ 31) \<le> sint b" "sint b < 2 ^ 31"
    using in_i32_sint [of a] in_i32_sint [of b] by (simp_all add: in_i32_def)
  then have "\<bar>sint a\<bar> \<le> 2147483648" "\<bar>sint b\<bar> \<le> 2147483648"
    by (simp_all add: abs_le_iff)
  then have "\<bar>sint a\<bar> * \<bar>sint b\<bar> \<le> 2147483648 * 2147483648"
    by (rule mult_mono) simp_all
  then show ?thesis
    by (simp add: abs_mult)
qed

lemma sint_product:
  fixes a b :: i32
  shows "sint ((scast a :: 64 word) * scast b) = sint a * sint b"
proof -
  have "- 9223372036854775808 \<le> sint a * sint b" "sint a * sint b < 9223372036854775808"
    using product_bounds [of a b] by (simp_all only: abs_le_iff) simp_all
  moreover have "(scast a :: 64 word) * scast b = word_of_int (sint a * sint b)"
    by (simp only: scast_eq of_int_mult)
  ultimately show ?thesis
    by (simp only: sint_of_in_i64)
qed

text \<open>A 64-bit value is its upper half, read as a signed number, and its lower half.\<close>

lemma high_low_words:
  fixes r :: "64 word"
  shows "sint (ucast (signed_drop_bit 32 r) :: i32) * 2 ^ 32 + uint (ucast (r AND 0xFFFFFFFF) :: i32) = sint r"
proof -
  have "(ucast (signed_drop_bit 32 r) :: i32) = word_of_int (drop_bit 32 (sint r))"
    by (rule bit_word_eqI) (auto simp: bit_simps)
  moreover have "- 9223372036854775808 \<le> sint r" "sint r < 9223372036854775808"
    using sint_range_size [of r] by (simp_all add: word_size)
  then have "in_i32 (sint r div 2 ^ 32)"
    unfolding in_i32_def by auto
  ultimately have "sint (ucast (signed_drop_bit 32 r) :: i32) = sint r div 2 ^ 32"
    by (simp only: drop_bit_eq_div sint_of_in_i32)
  moreover have "uint (ucast (r AND 0xFFFFFFFF) :: i32) = sint r mod 2 ^ 32"
  proof -
    have "r AND 0xFFFFFFFF = take_bit 32 r"
      by (simp add: take_bit_eq_mask mask_eq_exp_minus_1)
    then have "(ucast (r AND 0xFFFFFFFF) :: i32) = word_of_int (sint r)"
      by (intro bit_word_eqI) (auto simp: bit_simps)
    then show ?thesis
      by (simp only: uint_word_of_int len_bit0 len_num1) simp
  qed
  ultimately show ?thesis
    by (simp add: div_mult_mod_eq)
qed

lemma mult_exact:
  assumes "mult rs rt obj = Inr obj'" and "reg_at rs obj = Inr a" and "reg_at rt obj = Inr b"
  shows "sint (hi_reg obj') * 2 ^ 32 + uint (low_reg obj') = sint a * sint b"
proof -
  define r where "r = (scast a :: 64 word) * scast b"
  have "hi_reg obj' = ucast (signed_drop_bit 32 r)" and "low_reg obj' = ucast (r AND 0xFFFFFFFF)"
    using assms by (auto simp: mult_def r_def Let_def)
  then show ?thesis
    using high_low_words [of r] sint_product [of a b] by (simp only: r_def)
qed

text \<open>The quotient and the remainder of \<open>div\<close> belong together.\<close>

lemma divi_exact:
  assumes "divi rs rt obj = Inr obj'" and "reg_at rs obj = Inr a" and "reg_at rt obj = Inr b"
  shows "sint (low_reg obj') * sint b + sint (hi_reg obj') = sint a \<and> \<bar>sint (hi_reg obj')\<bar> < \<bar>sint b\<bar>"
proof -
  have b: "b \<noteq> 0"
    using assms by (auto simp: divi_def)
  then have "sint b \<noteq> 0"
    by (simp add: signed_eq_0_iff)
  then have m: "\<bar>sint a smod sint b\<bar> < \<bar>sint b\<bar>"
    using smod_int_range [of "sint b" "sint a"] by auto
  moreover have "\<bar>sint b\<bar> \<le> 2 ^ 31"
    using in_i32_sint [of b] by (auto simp: in_i32_def abs_le_iff)
  ultimately have "in_i32 (sint a smod sint b)"
    unfolding in_i32_def by linarith
  then have h: "sint (hi_reg obj') = sint a smod sint b"
    using assms b by (auto simp: divi_def rem32_def outcome_simps)
  have "sint (low_reg obj') = sint a sdiv sint b"
    using assms b by (auto simp: divi_def rem32_def outcome_simps sint_div32)
  then show ?thesis
    using h m by (simp add: sdiv_mult_smod_eq)
qed

text \<open>
  The mask of \<open>mul\<close> comes too late: the product is computed in \<open>int\<close>, so it either fits, or is
  undefined, and the mask changes nothing.
\<close>

lemma AND_ones [simp]: "w AND 0xFFFFFFFF = w" for w :: "32 word"
proof -
  have "(0xFFFFFFFF :: 32 word) = - 1"
    by simp
  then show ?thesis
    by (simp only: and.right_neutral)
qed

text \<open>\<open>srl\<close> keeps the sign.\<close>

lemma sint_signed_drop_bit: "sint (signed_drop_bit n w) = sint w div 2 ^ n" for w :: "32 word"
  by (simp only: sint_signed_drop_bit_eq drop_bit_eq_div)

section \<open>Lines as the programs are written\<close>

lemma getline_cut:
  "c \<notin> set l \<Longrightarrow> getline c [] (stream (l @ c # rest)) = (l, stream rest)"
  by (simp add: getline_def good_def takeWhile_append dropWhile_append)

lemma getline_last:
  "c \<notin> set l \<Longrightarrow> fst (getline c [] (stream l)) = l"
  by (auto simp: getline_def good_def Let_def takeWhile_eq_all_conv)

lemma line_fields_three:
  assumes "CHR '' '' \<notin> set opc" and "CHR '','' \<notin> set f1" and "CHR '','' \<notin> set f2" and "CHR ''\<newline>'' \<notin> set f3"
  shows "line_fields (opc @ CHR '' '' # f1 @ CHR '','' # f2 @ CHR '','' # f3) = (opc, f1, f2, f3)"
  using getline_last [OF assms(4)] by (simp add: line_fields_def istringstream_def getline_cut assms(1-3) split_beta)

lemma getline_ended:
  "fst (getline c [] \<lparr>buf = [], eofbit = b, failbit = b'\<rparr>) = []"
  by (simp add: getline_def)

lemma line_fields_two:
  assumes "CHR '' '' \<notin> set opc" and "CHR '','' \<notin> set f1" and "CHR '','' \<notin> set f2"
  shows "line_fields (opc @ CHR '' '' # f1 @ CHR '','' # f2) = (opc, f1, f2, [])"
proof -
  have t: "takeWhile (\<lambda>c. c \<noteq> CHR '','') f2 = f2" and "dropWhile (\<lambda>c. c \<noteq> CHR '','') f2 = []"
    using assms(3) by (auto simp: takeWhile_eq_all_conv)
  then have "getline (CHR '','') [] (stream f2) = (f2, \<lparr>buf = [], eofbit = True, failbit = (f2 = [])\<rparr>)"
    by (simp add: getline_def good_def Let_def t)
  then show ?thesis
    by (simp add: line_fields_def istringstream_def getline_cut assms(1,2) getline_ended split_beta)
qed

text \<open>The text of an operand, with the blank the sample programs put in front of it.\<close>

definition reg_operand :: "int \<Rightarrow> string" where
  "reg_operand r = '' $'' @ show_int r"

definition imm_operand :: "int \<Rightarrow> string" where
  "imm_operand k = CHR '' '' # show_int k"

lemma show_int_chars: "c \<in> set (show_int k) \<Longrightarrow> is_digit c \<or> c = CHR ''-''"
  by (auto simp: show_int_def dest: show_nat_digits split: if_splits)

lemma not_in_show_int [simp]:
  "CHR '','' \<notin> set (show_int k)" "CHR '' '' \<notin> set (show_int k)" "CHR ''$'' \<notin> set (show_int k)"
  "CHR ''\<newline>'' \<notin> set (show_int k)"
  by (auto dest!: show_int_chars simp: is_digit_def)

lemma operand_chars [simp]:
  "CHR '','' \<notin> set (reg_operand r)" "CHR ''\<newline>'' \<notin> set (reg_operand r)" "CHR ''$'' \<in> set (reg_operand r)"
  "CHR '','' \<notin> set (imm_operand r)" "CHR ''\<newline>'' \<notin> set (imm_operand r)" "CHR ''$'' \<notin> set (imm_operand r)"
  by (simp_all add: reg_operand_def imm_operand_def)

lemma stoi_operands [simp]:
  assumes "in_i32 k"
  shows "stoi (after_dollar (reg_operand k)) = Inr k" and "stoi (imm_operand k) = Inr k"
    and "stoi (after_dollar (imm_operand k)) = Inr k"
proof -
  have n: "stoi (show_int k) = Inr k"
    using stoi_show_int [of "[]" k] assms by simp
  have i: "stoi (imm_operand k) = stoi (show_int k)"
    by (simp add: stoi_def imm_operand_def)
  show "stoi (after_dollar (reg_operand k)) = Inr k"
    using n by (simp add: after_char_def reg_operand_def)
  show "stoi (imm_operand k) = Inr k"
    using n i by simp
  then show "stoi (after_dollar (imm_operand k)) = Inr k"
    by (simp add: after_char_def)
qed

definition line3 :: "string \<Rightarrow> string \<Rightarrow> string \<Rightarrow> string \<Rightarrow> string" where
  "line3 opc f1 f2 f3 = opc @ f1 @ CHR '','' # f2 @ CHR '','' # f3"

definition line2 :: "string \<Rightarrow> string \<Rightarrow> string \<Rightarrow> string" where
  "line2 opc f1 f2 = opc @ f1 @ CHR '','' # f2"

lemma exec_line3:
  assumes "CHR '' '' \<notin> set opc" and "in_i32 d" and "CHR '','' \<notin> set f2" and "CHR ''\<newline>'' \<notin> set f3"
  shows "exec_line (line3 opc (reg_operand d) f2 f3) obj = exec_op opc d f2 f3 obj"
proof -
  have "line_fields (line3 opc (reg_operand d) f2 f3) = (opc, CHR ''$'' # show_int d, f2, f3)"
    using line_fields_three [OF assms(1) _ assms(3,4), of "CHR ''$'' # show_int d"]
    by (simp add: line3_def reg_operand_def)
  then show ?thesis
    using stoi_operands(1) [OF assms(2)] by (simp add: exec_line_def after_char_def reg_operand_def)
qed

lemma exec_line2:
  assumes "CHR '' '' \<notin> set opc" and "in_i32 d" and "CHR '','' \<notin> set f2"
  shows "exec_line (line2 opc (reg_operand d) f2) obj = exec_op opc d f2 [] obj"
proof -
  have "line_fields (line2 opc (reg_operand d) f2) = (opc, CHR ''$'' # show_int d, f2, [])"
    using line_fields_two [OF assms(1) _ assms(3), of "CHR ''$'' # show_int d"]
    by (simp add: line2_def reg_operand_def)
  then show ?thesis
    using stoi_operands(1) [OF assms(2)] by (simp add: exec_line_def after_char_def reg_operand_def)
qed

definition unsigned3 ::
  "(u32 \<Rightarrow> u32 \<Rightarrow> u32 \<Rightarrow> 'a VmClass_scheme \<Rightarrow> 'a VmClass_scheme cpp) \<Rightarrow>
     int \<Rightarrow> int \<Rightarrow> int \<Rightarrow> 'a VmClass_scheme \<Rightarrow> 'a VmClass_scheme cpp" where
  "unsigned3 f d a b = f (word_of_int d) (word_of_int a) (word_of_int b)"

lemma exec_op_simps:
  "exec_op ''li'' d s1 s2 obj = one_operand s1 (\<lambda>a. li d a obj)"
  "exec_op ''add'' d s1 s2 obj = two_operands (after_dollar s1) (after_dollar s2) (\<lambda>a b. add d a b obj)"
  "exec_op ''addi'' d s1 s2 obj = two_operands (after_dollar s1) s2 (\<lambda>a b. addi d a b obj)"
  "exec_op ''addu'' d s1 s2 obj = two_operands (after_dollar s1) (after_dollar s2) (\<lambda>a b. addu d a b obj)"
  "exec_op ''subu'' d s1 s2 obj = two_operands (after_dollar s1) (after_dollar s2) (\<lambda>a b. subu d a b obj)"
  "exec_op ''addiu'' d s1 s2 obj = two_operands (after_dollar s1) s2 (\<lambda>a b. addiu d a b obj)"
  "exec_op ''mul'' d s1 s2 obj = two_operands (after_dollar s1) (after_dollar s2) (\<lambda>a b. mul d a b obj)"
  "exec_op ''mult'' d s1 s2 obj = one_operand (after_dollar s1) (\<lambda>a. mult d a obj)"
  "exec_op ''div'' d s1 s2 obj = one_operand (after_dollar s1) (\<lambda>a. divi d a obj)"
  "exec_op ''sub'' d s1 s2 obj = two_operands (after_dollar s1) (after_dollar s2) (\<lambda>a b. sub d a b obj)"
  "exec_op ''xor'' d s1 s2 obj = two_operands (after_dollar s1) (after_dollar s2) (\<lambda>a b. xorop d a b obj)"
  by (simp_all add: exec_op_def)

lemma exec_op_unsigned:
  "exec_op ''and'' d s1 s2 obj = two_operands (after_dollar s1) (after_dollar s2) (\<lambda>a b. unsigned3 AND_reg d a b obj)"
  "CHR ''$'' \<in> set s2 \<Longrightarrow>
   exec_op ''or'' d s1 s2 obj = two_operands (after_dollar s1) (after_dollar s2) (\<lambda>a b. unsigned3 OR_reg d a b obj)"
  "CHR ''$'' \<notin> set s2 \<Longrightarrow>
   exec_op ''or'' d s1 s2 obj = two_operands (after_dollar s1) s2 (\<lambda>a b. unsigned3 ORI d a b obj)"
  "exec_op ''andi'' d s1 s2 obj = two_operands (after_dollar s1) s2 (\<lambda>a b. unsigned3 ANDI d a b obj)"
  "exec_op ''sll'' d s1 s2 obj = two_operands (after_dollar s1) s2 (\<lambda>a b. unsigned3 SLL d a b obj)"
  "exec_op ''srl'' d s1 s2 obj = two_operands (after_dollar s1) s2 (\<lambda>a b. unsigned3 SRL d a b obj)"
  by (simp_all add: exec_op_def unsigned3_def)

lemma two_operands_simps:
  assumes "in_i32 a" and "in_i32 b"
  shows "two_operands (after_dollar (reg_operand a)) (after_dollar (reg_operand b)) f = f a b"
    and "two_operands (after_dollar (reg_operand a)) (imm_operand b) f = f a b"
  using assms by (simp_all add: two_operands_def)

text \<open>The instruction set: which operation a line stands for.\<close>

definition register_forms :: "(string \<times> (int \<Rightarrow> int \<Rightarrow> int \<Rightarrow> 'a VmClass_scheme \<Rightarrow> 'a VmClass_scheme cpp)) list" where
  "register_forms =
     [(''add'', add), (''addu'', addu), (''sub'', sub), (''subu'', subu), (''mul'', mul), (''xor'', xorop),
      (''and'', unsigned3 AND_reg), (''or'', unsigned3 OR_reg)]"

definition immediate_forms :: "(string \<times> (int \<Rightarrow> int \<Rightarrow> int \<Rightarrow> 'a VmClass_scheme \<Rightarrow> 'a VmClass_scheme cpp)) list" where
  "immediate_forms =
     [(''addi'', addi), (''addiu'', addiu), (''andi'', unsigned3 ANDI), (''or'', unsigned3 ORI),
      (''sll'', unsigned3 SLL), (''srl'', unsigned3 SRL)]"

lemma exec_register_form:
  assumes "(opc, f) \<in> set register_forms" and "in_i32 d" and "in_i32 a" and "in_i32 b"
  shows "exec_line (line3 opc (reg_operand d) (reg_operand a) (reg_operand b)) obj = f d a b obj"
proof -
  have "CHR '' '' \<notin> set opc"
    using assms(1) by (auto simp: register_forms_def)
  then have "exec_line (line3 opc (reg_operand d) (reg_operand a) (reg_operand b)) obj =
      exec_op opc d (reg_operand a) (reg_operand b) obj"
    using assms(2) by (simp add: exec_line3)
  then show ?thesis
    using assms(1) unfolding register_forms_def set_simps insert_iff empty_iff prod.inject
    by (elim disjE conjE) (simp_all add: exec_op_simps exec_op_unsigned two_operands_simps [OF assms(3,4)])
qed

lemma exec_immediate_form:
  assumes "(opc, f) \<in> set immediate_forms" and "in_i32 d" and "in_i32 a" and "in_i32 k"
  shows "exec_line (line3 opc (reg_operand d) (reg_operand a) (imm_operand k)) obj = f d a k obj"
proof -
  have "CHR '' '' \<notin> set opc"
    using assms(1) by (auto simp: immediate_forms_def)
  then have "exec_line (line3 opc (reg_operand d) (reg_operand a) (imm_operand k)) obj =
      exec_op opc d (reg_operand a) (imm_operand k) obj"
    using assms(2) by (simp add: exec_line3)
  then show ?thesis
    using assms(1) unfolding immediate_forms_def set_simps insert_iff empty_iff prod.inject
    by (elim disjE conjE) (simp_all add: exec_op_simps exec_op_unsigned two_operands_simps [OF assms(3,4)])
qed

lemma exec_two_operand_forms:
  assumes "in_i32 d" and "in_i32 a"
  shows "exec_line (line2 ''mult'' (reg_operand d) (reg_operand a)) obj = mult d a obj"
    and "exec_line (line2 ''div'' (reg_operand d) (reg_operand a)) obj = divi d a obj"
    and "exec_line (line2 ''li'' (reg_operand d) (imm_operand a)) obj = li d a obj"
  using assms by (simp_all add: exec_line2 exec_op_simps one_operand_def)

end
