(* ===== verification/Legacy_Loop.thy ===== *)
theory Legacy_Loop
  imports Legacy_Machine
begin

text \<open>
  What the single-file programs share around \<open>solve\<close>: opening files, the configuration file of a
  machine and the loop that lets two machines execute the lines of their files in turns. The loop
  takes the program's \<open>solve\<close> as an argument. A file is read as it was when it was opened.
\<close>

section \<open>The code\<close>

type_synonym 'v solver = "string \<Rightarrow> 'v \<Rightarrow> World \<Rightarrow> ('v \<times> World) cpp"

definition open_input :: "string \<Rightarrow> World \<Rightarrow> istream" where
  "open_input path w =
     (case files w path of
        None \<Rightarrow> \<lparr>buf = [], eofbit = False, failbit = True\<rparr>
      | Some text \<Rightarrow> istringstream text)"

definition report_open :: "string \<Rightarrow> World \<Rightarrow> World" where
  "report_open path w =
     (if files w path = None then w\<lparr>cerr := cerr w @ ''Error: File open not Successful'' @ ''\<newline>''\<rparr> else w)"

text \<open>
  A line \<open>key=value\<close> of a configuration file. Without an equals sign \<open>find\<close> returns \<open>npos\<close>: the
  key is the whole line, and so is the value, as \<open>npos + 1\<close> is 0.
\<close>

definition config_line :: "string \<Rightarrow> 'a VmClass_scheme \<Rightarrow> 'a VmClass_scheme cpp" where
  "config_line line vm =
     (let key = takeWhile (\<lambda>c. c \<noteq> CHR ''='') line; val = after_char (CHR ''='') line
      in if key = ''vm_exec_slice_in_instructions''
         then bind_cpp (stoi val) (\<lambda>n. Inr (vm\<lparr>vm_exec_slice_in_instructions := Some n\<rparr>))
         else if key = ''vm_binary'' then Inr (vm\<lparr>vm_binary := val\<rparr>)
         else Inr vm)"

fun config_lines :: "string list \<Rightarrow> 'a VmClass_scheme \<Rightarrow> 'a VmClass_scheme cpp" where
  "config_lines [] vm = Inr vm"
| "config_lines (l # ls) vm = bind_cpp (config_line l vm) (config_lines ls)"

text \<open>Lines that are read and dropped, as the server of the migration does with the first ones.\<close>

fun skip_lines :: "nat \<Rightarrow> istream \<Rightarrow> istream" where
  "skip_lines 0 inp = inp"
| "skip_lines (Suc n) inp = skip_lines n (snd (getline (CHR ''\<newline>'') [] inp))"

text \<open>The inner loop, which reads and executes at most \<open>n\<close> lines.\<close>

fun run_slice :: "'v solver \<Rightarrow> nat \<Rightarrow> istream \<Rightarrow> 'v \<Rightarrow> World \<Rightarrow> (istream \<times> 'v \<times> World) cpp" where
  "run_slice solve 0 inp vm w = Inr (inp, vm, w)"
| "run_slice solve (Suc n) inp vm w =
     (let (line, inp) = getline (CHR ''\<newline>'') [] inp
      in if failbit inp then Inr (inp, vm, w)
         else bind_cpp (solve line vm w) (\<lambda>(vm, w). run_slice solve n inp vm w))"

definition slice_size :: "'a VmClass_scheme \<Rightarrow> nat cpp" where
  "slice_size vm =
     (case vm_exec_slice_in_instructions vm of None \<Rightarrow> Inl UB_Uninitialized | Some n \<Rightarrow> Inr (nat n))"

text \<open>One turn of the outer loop: a slice of each machine.\<close>

definition run_turn ::
  "'a VmClass_scheme solver \<Rightarrow> istream \<Rightarrow> 'a VmClass_scheme \<Rightarrow> istream \<Rightarrow> 'a VmClass_scheme \<Rightarrow> World \<Rightarrow>
     (istream \<times> 'a VmClass_scheme \<times> istream \<times> 'a VmClass_scheme \<times> World) cpp" where
  "run_turn solve f1 vm1 f2 vm2 w =
     bind_cpp (slice_size vm1) (\<lambda>n1. bind_cpp (run_slice solve n1 f1 vm1 w) (\<lambda>(f1, vm1, w).
     bind_cpp (slice_size vm2) (\<lambda>n2. bind_cpp (run_slice solve n2 f2 vm2 w) (\<lambda>(f2, vm2, w).
     Inr (f1, vm1, f2, vm2, w)))))"

text \<open>The outer loop. It tests \<open>eof ()\<close>, which a stream that never opened does not set.\<close>

partial_function (option) run_both ::
  "'a VmClass_scheme solver \<Rightarrow> istream \<Rightarrow> 'a VmClass_scheme \<Rightarrow> istream \<Rightarrow> 'a VmClass_scheme \<Rightarrow> World \<Rightarrow>
     ('a VmClass_scheme \<times> 'a VmClass_scheme \<times> World) cpp option" where
  "run_both solve f1 vm1 f2 vm2 w =
     (if \<not> (\<not> eofbit f1 \<or> \<not> eofbit f2) then Some (Inr (vm1, vm2, w))
      else case run_turn solve f1 vm1 f2 vm2 w of
             Inl e \<Rightarrow> Some (Inl e)
           | Inr (f1, vm1, f2, vm2, w) \<Rightarrow> run_both solve f1 vm1 f2 vm2 w)"

section \<open>A machine on its own\<close>

text \<open>The specification: the lines of a file, executed one after the other.\<close>

fun exec_lines :: "(string \<Rightarrow> 'v \<Rightarrow> 'v cpp) \<Rightarrow> string list \<Rightarrow> 'v \<Rightarrow> 'v cpp" where
  "exec_lines step [] vm = Inr vm"
| "exec_lines step (l # ls) vm = bind_cpp (step l vm) (exec_lines step ls)"

lemma exec_lines_append:
  "exec_lines step (ls @ ms) vm = bind_cpp (exec_lines step ls vm) (exec_lines step ms)"
proof (induction ls arbitrary: vm)
  case (Cons l ls)
  then show ?case by (cases "step l vm") simp_all
qed simp

lemma read_lines_Cons:
  "getline (CHR ''\<newline>'') [] inp = (line, inp') \<Longrightarrow>
   read_lines inp = (if failbit inp' then [] else line # read_lines inp')"
  by (subst read_lines.simps) simp

lemma read_lines_bad: "\<not> good inp \<Longrightarrow> read_lines inp = []"
  by (subst read_lines.simps) (simp add: getline_def)

lemma read_lines_skip: "read_lines (skip_lines n inp) = drop n (read_lines inp)"
proof (induction n arbitrary: inp)
  case (Suc n)
  obtain l g where g: "getline (CHR ''\<newline>'') [] inp = (l, g)"
    by (cases "getline (CHR ''\<newline>'') [] inp")
  show ?case
    using Suc.IH [of g] g read_lines_Cons [OF g] read_lines_bad [of g] by (auto simp: good_def)
qed simp

text \<open>The streams that can still reach their end: at the end, or not failed.\<close>

definition live_stream :: "istream \<Rightarrow> bool" where
  "live_stream f \<longleftrightarrow> eofbit f \<or> \<not> failbit f"

lemma live_open: "files w path \<noteq> None \<Longrightarrow> live_stream (open_input path w)"
  by (auto simp: live_stream_def open_input_def istringstream_def)

lemma getline_live:
  assumes "live_stream f" and "getline c old f = (l, f')"
  shows "live_stream f'" and "chars_left f' \<le> chars_left f" and "\<not> eofbit f \<Longrightarrow> chars_left f' < chars_left f"
proof -
  have d: "length (dropWhile (\<lambda>x. x \<noteq> c) (buf f)) \<le> length (buf f)"
    by (rule length_dropWhile_le)
  have "live_stream f' \<and> chars_left f' \<le> chars_left f \<and> (\<not> eofbit f \<longrightarrow> chars_left f' < chars_left f)"
  proof (cases "good f")
    case True
    show ?thesis
    proof (cases "dropWhile (\<lambda>x. x \<noteq> c) (buf f) = []")
      case True
      then show ?thesis
        using assms \<open>good f\<close> by (auto simp: getline_def Let_def live_stream_def chars_left_def good_def)
    next
      case False
      then have "length (tl (dropWhile (\<lambda>x. x \<noteq> c) (buf f))) < length (buf f)"
        using d by (cases "dropWhile (\<lambda>x. x \<noteq> c) (buf f)") auto
      moreover have "f' = f\<lparr>buf := tl (dropWhile (\<lambda>x. x \<noteq> c) (buf f))\<rparr>"
        using assms(2) True False by (auto simp: getline_def Let_def)
      ultimately show ?thesis
        using True assms(1) by (simp add: live_stream_def chars_left_def good_def)
    qed
  next
    case False
    then show ?thesis
      using assms by (auto simp: getline_def live_stream_def chars_left_def good_def)
  qed
  then show "live_stream f'" and "chars_left f' \<le> chars_left f" and "\<not> eofbit f \<Longrightarrow> chars_left f' < chars_left f"
    by auto
qed

lemma run_slice_live:
  assumes "run_slice solve n f vm w = Inr (f', vm', w')" and "live_stream f"
  shows "live_stream f' \<and> chars_left f' \<le> chars_left f \<and> (0 < n \<and> \<not> eofbit f \<longrightarrow> chars_left f' < chars_left f)"
  using assms
proof (induction n arbitrary: f vm w)
  case (Suc n)
  obtain line g where g: "getline (CHR ''\<newline>'') [] f = (line, g)"
    by (cases "getline (CHR ''\<newline>'') [] f")
  note l = getline_live [OF Suc.prems(2) g]
  show ?case
  proof (cases "failbit g")
    case True
    then show ?thesis
      using Suc.prems g l by auto
  next
    case False
    then obtain vm1 w1 where "run_slice solve n g vm1 w1 = Inr (f', vm', w')"
      using Suc.prems g by (auto simp: bind_cpp_eq_Inr)
    then show ?thesis
      using Suc.IH l by fastforce
  qed
qed simp

text \<open>A stream that failed without reaching its end, and an empty slice, leave the stream as it is.\<close>

lemma run_slice_idle:
  assumes "\<not> eofbit f \<and> failbit f \<or> n = 0" and "run_slice solve n f vm w = Inr (f', vm', w')"
  shows "f' = f \<and> vm' = vm \<and> w' = w"
proof (cases n)
  case (Suc k)
  then have "f' = f\<lparr>failbit := True\<rparr> \<and> vm' = vm \<and> w' = w"
    using assms by (auto simp: getline_def good_def)
  then show ?thesis
    using assms(1) Suc by simp
qed (use assms in simp)

text \<open>A machine whose slice is positive.\<close>

definition positive_slice :: "'a VmClass_scheme \<Rightarrow> bool" where
  "positive_slice vm \<longleftrightarrow> (\<exists>n > 0. vm_exec_slice_in_instructions vm = Some n)"

text \<open>A machine that the loop never moves: its file could not be opened, or its slice is not positive.\<close>

definition idle_input :: "istream \<Rightarrow> 'a VmClass_scheme \<Rightarrow> bool" where
  "idle_input f vm \<longleftrightarrow> \<not> eofbit f \<and>
     (failbit f \<or> (\<exists>n \<le> 0. vm_exec_slice_in_instructions vm = Some n))"

text \<open>Induction over a loop that returns: it stops, a turn aborts, or a turn is followed by the rest.\<close>

lemma run_both_induct [consumes 1, case_names stop abort turn]:
  assumes "run_both solve f1 vm1 f2 vm2 w = Some r"
    and stop: "\<And>f1 vm1 f2 vm2 w. eofbit f1 \<Longrightarrow> eofbit f2 \<Longrightarrow> Q f1 vm1 f2 vm2 (Inr (vm1, vm2, w))"
    and abort: "\<And>f1 vm1 f2 vm2 w e. \<not> (eofbit f1 \<and> eofbit f2) \<Longrightarrow>
      run_turn solve f1 vm1 f2 vm2 w = Inl e \<Longrightarrow> Q f1 vm1 f2 vm2 (Inl e)"
    and turn: "\<And>f1 vm1 f2 vm2 w g1 u1 g2 u2 w' r. \<not> (eofbit f1 \<and> eofbit f2) \<Longrightarrow>
      run_turn solve f1 vm1 f2 vm2 w = Inr (g1, u1, g2, u2, w') \<Longrightarrow> Q g1 u1 g2 u2 r \<Longrightarrow> Q f1 vm1 f2 vm2 r"
  shows "Q f1 vm1 f2 vm2 r"
proof -
  have "Q f1 vm1 f2 vm2 r" if "run_both slv f1 vm1 f2 vm2 w = Some r" and "slv = solve" for slv
    using that
  proof (induction rule: run_both.raw_induct [rotated, consumes 1, case_names step])
    case (step run slv f1 vm1 f2 vm2 w r)
    show ?case
    proof (cases "eofbit f1 \<and> eofbit f2")
      case True
      then show ?thesis using step(2) assms(2) by auto
    next
      case False
      then show ?thesis
        using step assms(3) [OF False] assms(4) [OF False]
        by (cases "run_turn solve f1 vm1 f2 vm2 w") (auto split: prod.splits)
    qed
  qed
  from this [OF assms(1) refl] show ?thesis .
qed

text \<open>
  The contract between the loop and a program's \<open>solve\<close>: what a line does to the machine depends on
  the line and the machine only, not on the host, and it keeps the slice.
\<close>

locale line_machine =
  fixes solve :: "'a VmClass_scheme solver"
    and step :: "string \<Rightarrow> 'a VmClass_scheme \<Rightarrow> 'a VmClass_scheme cpp"
  assumes solve_step: "bind_cpp (solve line vm w) (\<lambda>(vm', w'). Inr vm') = step line vm"
    and step_slice: "step line vm = Inr vm' \<Longrightarrow>
      vm_exec_slice_in_instructions vm' = vm_exec_slice_in_instructions vm"
begin

lemma solve_Inr: "solve line vm w = Inr (vm', w') \<Longrightarrow> step line vm = Inr vm'"
  using solve_step [of line vm w] by simp

lemma run_slice_lines:
  assumes "run_slice solve n inp vm w = Inr (inp', vm', w')"
  shows "exec_lines step (take n (read_lines inp)) vm = Inr vm'"
    and "read_lines inp' = drop n (read_lines inp)"
    and "vm_exec_slice_in_instructions vm' = vm_exec_slice_in_instructions vm"
proof -
  have "exec_lines step (take n (read_lines inp)) vm = Inr vm' \<and> read_lines inp' = drop n (read_lines inp) \<and>
    vm_exec_slice_in_instructions vm' = vm_exec_slice_in_instructions vm"
    using assms
  proof (induction n arbitrary: inp vm w)
    case (Suc n)
    obtain line inp1 where g: "getline (CHR ''\<newline>'') [] inp = (line, inp1)"
      by (cases "getline (CHR ''\<newline>'') [] inp")
    show ?case
    proof (cases "failbit inp1")
      case True
      then show ?thesis
        using Suc.prems g read_lines_Cons [OF g] read_lines_bad [of inp1] by (simp add: good_def)
    next
      case False
      then obtain vm1 w1 where s: "solve line vm w = Inr (vm1, w1)"
        and r: "run_slice solve n inp1 vm1 w1 = Inr (inp', vm', w')"
        using Suc.prems g by (auto simp: bind_cpp_eq_Inr)
      show ?thesis
        using Suc.IH [OF r] solve_Inr [OF s] step_slice [OF solve_Inr [OF s]] read_lines_Cons [OF g] False by simp
    qed
  qed simp
  then show "exec_lines step (take n (read_lines inp)) vm = Inr vm'"
    and "read_lines inp' = drop n (read_lines inp)"
    and "vm_exec_slice_in_instructions vm' = vm_exec_slice_in_instructions vm" by simp_all
qed

lemma exec_take_drop:
  assumes "exec_lines step (take n ls) vm = Inr vm'" and "exec_lines step (drop n ls) vm' = Inr vm''"
  shows "exec_lines step ls vm = Inr vm''"
  using exec_lines_append [of step "take n ls" "drop n ls" vm] assms by simp

lemma run_turnE:
  assumes "run_turn solve f1 vm1 f2 vm2 w = Inr (g1, u1, g2, u2, w')"
  obtains n1 n2 w1 where "slice_size vm1 = Inr n1" and "slice_size vm2 = Inr n2"
    and "run_slice solve n1 f1 vm1 w = Inr (g1, u1, w1)" and "run_slice solve n2 f2 vm2 w1 = Inr (g2, u2, w')"
  using assms that by (auto simp: run_turn_def bind_cpp_eq_Inr)

text \<open>When the loop ends, each machine has executed its own file from beginning to end.\<close>

lemma run_both_alone:
  assumes "run_both solve f1 vm1 f2 vm2 w = Some (Inr (u1, u2, w'))"
  shows "exec_lines step (read_lines f1) vm1 = Inr u1" and "exec_lines step (read_lines f2) vm2 = Inr u2"
proof -
  have "case (Inr (u1, u2, w') :: ('a VmClass_scheme \<times> 'a VmClass_scheme \<times> World) cpp) of Inl e \<Rightarrow> True
    | Inr (u1, u2, w') \<Rightarrow>
        exec_lines step (read_lines f1) vm1 = Inr u1 \<and> exec_lines step (read_lines f2) vm2 = Inr u2"
    using assms
  proof (induction rule: run_both_induct)
    case (stop f1 vm1 f2 vm2 w)
    then show ?case
      using read_lines_bad [of f1] read_lines_bad [of f2] by (simp add: good_def)
  next
    case (turn f1 vm1 f2 vm2 w g1 v1 g2 v2 w2 r)
    obtain n1 n2 w1 where s1: "run_slice solve n1 f1 vm1 w = Inr (g1, v1, w1)"
      and s2: "run_slice solve n2 f2 vm2 w1 = Inr (g2, v2, w2)"
      using run_turnE [OF turn(2)] by blast
    show ?case
      using turn(3) exec_take_drop [OF run_slice_lines(1) [OF s1]] exec_take_drop [OF run_slice_lines(1) [OF s2]]
        run_slice_lines(2) [OF s1] run_slice_lines(2) [OF s2]
      by (auto split: sum.splits)
  qed simp
  then show "exec_lines step (read_lines f1) vm1 = Inr u1" and "exec_lines step (read_lines f2) vm2 = Inr u2"
    by simp_all
qed

text \<open>The loop ends when both files are open and both slices are positive.\<close>

lemma run_both_returns:
  assumes "live_stream f1" and "live_stream f2" and "positive_slice vm1" and "positive_slice vm2"
  shows "\<exists>r. run_both solve f1 vm1 f2 vm2 w = Some r"
  using assms
proof (induction "chars_left f1 + chars_left f2" arbitrary: f1 f2 vm1 vm2 w rule: less_induct)
  case less
  show ?case
  proof (cases "eofbit f1 \<and> eofbit f2")
    case True
    then show ?thesis by (subst run_both.simps) simp
  next
    case False
    show ?thesis
    proof (cases "run_turn solve f1 vm1 f2 vm2 w")
      case (Inl e)
      then show ?thesis using False by (subst run_both.simps) simp
    next
      case (Inr x)
      obtain g1 v1 g2 v2 w2 where x: "x = (g1, v1, g2, v2, w2)" by (cases x) auto
      then have turn: "run_turn solve f1 vm1 f2 vm2 w = Inr (g1, v1, g2, v2, w2)"
        using Inr by simp
      obtain n1 n2 w1 where n: "slice_size vm1 = Inr n1" "slice_size vm2 = Inr n2"
        and s1: "run_slice solve n1 f1 vm1 w = Inr (g1, v1, w1)"
        and s2: "run_slice solve n2 f2 vm2 w1 = Inr (g2, v2, w2)"
        using run_turnE [OF turn] by blast
      have "0 < n1" and "0 < n2"
        using n less.prems(3,4) by (auto simp: slice_size_def positive_slice_def)
      then have "chars_left g1 + chars_left g2 < chars_left f1 + chars_left f2"
        and l: "live_stream g1" "live_stream g2"
        using run_slice_live [OF s1 less.prems(1)] run_slice_live [OF s2 less.prems(2)] False by auto
      moreover have "positive_slice v1" and "positive_slice v2"
        using less.prems(3,4) run_slice_lines(3) [OF s1] run_slice_lines(3) [OF s2]
        by (simp_all add: positive_slice_def)
      ultimately have "\<exists>r. run_both solve g1 v1 g2 v2 w2 = Some r"
        using less.hyps by blast
      moreover have "run_both solve f1 vm1 f2 vm2 w = run_both solve g1 v1 g2 v2 w2"
        using False turn by (subst run_both.simps) simp
      ultimately show ?thesis by simp
    qed
  qed
qed

text \<open>It does not end when one of the files could not be opened, or one of the slices is not positive.\<close>

lemma run_slice_idle_input:
  assumes "idle_input f vm" and "slice_size vm = Inr n" and "run_slice solve n f vm w = Inr (f', vm', w')"
  shows "idle_input f' vm'"
  using run_slice_idle [OF _ assms(3)] assms(1,2) by (auto simp: idle_input_def slice_size_def)

lemma idle_slice_returns:
  assumes "idle_input f vm" and "slice_size vm = Inr n"
  shows "run_slice solve n f vm w \<noteq> Inl e"
proof (cases n)
  case (Suc k)
  then have "failbit f"
    using assms by (auto simp: idle_input_def slice_size_def)
  then have "failbit (snd (getline (CHR ''\<newline>'') [] f))"
    by (simp add: getline_def good_def)
  then show ?thesis
    using Suc by (simp add: split_beta)
qed simp

lemma run_both_idle:
  assumes "idle_input f1 vm1 \<or> idle_input f2 vm2"
  shows "run_both solve f1 vm1 f2 vm2 w \<noteq> Some (Inr r)"
proof
  assume "run_both solve f1 vm1 f2 vm2 w = Some (Inr r)"
  then have "idle_input f1 vm1 \<or> idle_input f2 vm2 \<longrightarrow>
      \<not> returns (Inr r :: ('a VmClass_scheme \<times> 'a VmClass_scheme \<times> World) cpp)"
  proof (induction rule: run_both_induct)
    case (turn f1 vm1 f2 vm2 w g1 v1 g2 v2 w2 q)
    obtain n1 n2 w1 where n: "slice_size vm1 = Inr n1" "slice_size vm2 = Inr n2"
      and s1: "run_slice solve n1 f1 vm1 w = Inr (g1, v1, w1)"
      and s2: "run_slice solve n2 f2 vm2 w1 = Inr (g2, v2, w2)"
      using run_turnE [OF turn(2)] by blast
    then show ?case
      using turn(3) run_slice_idle_input [OF _ n(1) s1] run_slice_idle_input [OF _ n(2) s2] by blast
  qed (auto simp: idle_input_def)
  then show False
    using assms by simp
qed

text \<open>An abort of the loop is an abort of one of the machines on its own, and not of one that never moves.\<close>

lemma run_slice_abort:
  "run_slice solve n inp vm w = Inl e \<Longrightarrow> exec_lines step (take n (read_lines inp)) vm = Inl e"
proof (induction n arbitrary: inp vm w)
  case (Suc n)
  obtain line inp1 where g: "getline (CHR ''\<newline>'') [] inp = (line, inp1)"
    by (cases "getline (CHR ''\<newline>'') [] inp")
  then have nf: "\<not> failbit inp1"
    using Suc.prems by (auto split: if_splits)
  show ?case
  proof (cases "solve line vm w")
    case (Inl e')
    then have "step line vm = Inl e'"
      using solve_step [of line vm w] by simp
    then show ?thesis
      using Suc.prems g nf Inl read_lines_Cons [OF g] by simp
  next
    case (Inr x)
    then obtain vm1 w1 where s: "solve line vm w = Inr (vm1, w1)" by (cases x) auto
    then show ?thesis
      using Suc.IH [of inp1 vm1 w1] Suc.prems g nf solve_Inr [OF s] read_lines_Cons [OF g] by simp
  qed
qed simp

lemma exec_take_abort:
  assumes "exec_lines step (take n ls) vm = Inl e"
  shows "exec_lines step ls vm = Inl e"
  using exec_lines_append [of step "take n ls" "drop n ls" vm] assms by simp

lemma exec_drop_abort:
  assumes "exec_lines step (take n ls) vm = Inr vm'" and "exec_lines step (drop n ls) vm' = Inl e"
  shows "exec_lines step ls vm = Inl e"
  using exec_lines_append [of step "take n ls" "drop n ls" vm] assms by simp

lemma run_turn_abort:
  assumes "run_turn solve f1 vm1 f2 vm2 w = Inl e"
    and "vm_exec_slice_in_instructions vm1 \<noteq> None" and "vm_exec_slice_in_instructions vm2 \<noteq> None"
  shows "\<not> idle_input f1 vm1 \<and> exec_lines step (read_lines f1) vm1 = Inl e \<or>
    \<not> idle_input f2 vm2 \<and> exec_lines step (read_lines f2) vm2 = Inl e"
proof -
  obtain n1 n2 where n: "slice_size vm1 = Inr n1" "slice_size vm2 = Inr n2"
    using assms(2,3) by (auto simp: slice_size_def)
  show ?thesis
  proof (cases "run_slice solve n1 f1 vm1 w")
    case (Inl e')
    then show ?thesis
      using assms(1) n exec_take_abort [OF run_slice_abort [OF Inl]] idle_slice_returns [OF _ n(1)]
      by (auto simp: run_turn_def)
  next
    case (Inr x)
    obtain g1 v1 w1 where x: "x = (g1, v1, w1)" by (cases x)
    show ?thesis
    proof (cases "run_slice solve n2 f2 vm2 w1")
      case (Inl e')
      then show ?thesis
        using assms(1) n Inr x exec_take_abort [OF run_slice_abort [OF Inl]] idle_slice_returns [OF _ n(2)]
        by (auto simp: run_turn_def)
    next
      case (Inr y)
      then show ?thesis
        using assms(1) n x \<open>run_slice solve n1 f1 vm1 w = Inr x\<close> by (cases y) (simp add: run_turn_def)
    qed
  qed
qed

lemma run_both_abort:
  assumes "run_both solve f1 vm1 f2 vm2 w = Some (Inl e)"
    and "vm_exec_slice_in_instructions vm1 \<noteq> None" and "vm_exec_slice_in_instructions vm2 \<noteq> None"
  shows "\<not> idle_input f1 vm1 \<and> exec_lines step (read_lines f1) vm1 = Inl e \<or>
    \<not> idle_input f2 vm2 \<and> exec_lines step (read_lines f2) vm2 = Inl e"
proof -
  have "vm_exec_slice_in_instructions vm1 \<noteq> None \<longrightarrow> vm_exec_slice_in_instructions vm2 \<noteq> None \<longrightarrow>
    (case (Inl e :: ('a VmClass_scheme \<times> 'a VmClass_scheme \<times> World) cpp) of Inr _ \<Rightarrow> True
     | Inl e \<Rightarrow> \<not> idle_input f1 vm1 \<and> exec_lines step (read_lines f1) vm1 = Inl e \<or>
         \<not> idle_input f2 vm2 \<and> exec_lines step (read_lines f2) vm2 = Inl e)"
    using assms(1)
  proof (induction rule: run_both_induct)
    case (abort f1 vm1 f2 vm2 w e)
    then show ?case
      using run_turn_abort [OF abort(2)] by auto
  next
    case (turn f1 vm1 f2 vm2 w g1 v1 g2 v2 w2 q)
    obtain n1 n2 w1 where n: "slice_size vm1 = Inr n1" "slice_size vm2 = Inr n2"
      and s1: "run_slice solve n1 f1 vm1 w = Inr (g1, v1, w1)"
      and s2: "run_slice solve n2 f2 vm2 w1 = Inr (g2, v2, w2)"
      using run_turnE [OF turn(2)] by blast
    show ?case
      using turn(3) run_slice_lines(3) [OF s1] run_slice_lines(3) [OF s2]
        exec_drop_abort [OF run_slice_lines(1) [OF s1]] exec_drop_abort [OF run_slice_lines(1) [OF s2]]
        run_slice_lines(2) [OF s1] run_slice_lines(2) [OF s2]
        run_slice_idle_input [OF _ n(1) s1] run_slice_idle_input [OF _ n(2) s2]
      by (auto split: sum.splits)
  qed simp
  then show ?thesis
    using assms(2,3) by simp
qed

text \<open>So the loop ends well exactly when both machines would on their own.\<close>

lemma run_both_outcome:
  assumes "live_stream f1" and "live_stream f2" and "positive_slice vm1" and "positive_slice vm2"
  shows "(\<exists>u1 u2 w'. run_both solve f1 vm1 f2 vm2 w = Some (Inr (u1, u2, w'))) \<longleftrightarrow>
    returns (exec_lines step (read_lines f1) vm1) \<and> returns (exec_lines step (read_lines f2) vm2)"
proof -
  have s: "vm_exec_slice_in_instructions vm1 \<noteq> None" "vm_exec_slice_in_instructions vm2 \<noteq> None"
    using assms(3,4) by (auto simp: positive_slice_def)
  obtain r where r: "run_both solve f1 vm1 f2 vm2 w = Some r"
    using run_both_returns [OF assms] by blast
  show ?thesis
  proof (cases r)
    case (Inl e)
    then show ?thesis
      using run_both_abort [OF _ s] r by fastforce
  next
    case (Inr x)
    then show ?thesis
      using r run_both_alone [of f1 vm1 f2 vm2 w] by (cases x) (auto simp: returns_iff)
  qed
qed

lemma run_both_stuck:
  assumes "idle_input f1 vm1 \<or> idle_input f2 vm2"
    and "vm_exec_slice_in_instructions vm1 \<noteq> None" and "vm_exec_slice_in_instructions vm2 \<noteq> None"
    and "idle_input f1 vm1 \<or> returns (exec_lines step (read_lines f1) vm1)"
    and "idle_input f2 vm2 \<or> returns (exec_lines step (read_lines f2) vm2)"
  shows "run_both solve f1 vm1 f2 vm2 w = None"
proof (cases "run_both solve f1 vm1 f2 vm2 w")
  case (Some q)
  then show ?thesis
    using run_both_idle [OF assms(1)] run_both_abort [OF _ assms(2,3)] assms(4,5) by (cases q) fastforce+
qed

end

end
