(* ===== verification/Legacy_Programs.thy ===== *)
theory Legacy_Programs
  imports Legacy_Loop
begin

text \<open>
  The two single-file programs that run two machines in turns: \<open>project.cc\<close>, and \<open>homework1.cc\<close>,
  which adds snapshots of the registers in text files. The options of \<open>homework1.cc\<close> come from the
  POSIX function \<open>getopt\<close>, whose results are an argument of the model.
\<close>

section \<open>project.cc\<close>

definition project_solve :: "string \<Rightarrow> VmClass \<Rightarrow> World \<Rightarrow> (VmClass \<times> World) cpp" where
  "project_solve line obj w =
     (if fst (line_fields line) = ''DUMP_PROCESSOR_STATE'' then Inr (obj, w\<lparr>cout := cout w @ dumpstate obj\<rparr>)
      else bind_cpp (exec_line line obj) (\<lambda>obj. Inr (obj, w)))"

text \<open>
  The loop over the arguments behind the program name. The argument behind a final \<open>-v\<close> is the
  null pointer, which the constructor of the string reads outside every object.
\<close>

fun assembly_files :: "string list \<Rightarrow> string list cpp" where
  "assembly_files [] = Inr []"
| "assembly_files (a # args) =
     (if a = ''-v''
      then (case args of
              [] \<Rightarrow> Inl UB_Bounds
            | b # _ \<Rightarrow> bind_cpp (assembly_files args) (\<lambda>fs. Inr (b # fs)))
      else assembly_files args)"

text \<open>\<open>vector::at\<close>, which throws outside the vector.\<close>

definition at :: "'a list \<Rightarrow> nat \<Rightarrow> 'a cpp" where
  "at xs i = (if i < length xs then Inr (xs ! i) else Inl Uncaught_Exception)"

text \<open>The configuration files and the instruction files, up to the loop.\<close>

definition project_setup ::
  "string list \<Rightarrow> World \<Rightarrow> (istream \<times> VmClass \<times> istream \<times> VmClass \<times> World) cpp" where
  "project_setup args w =
     bind_cpp (assembly_files args) (\<lambda>fs.
     bind_cpp (at fs 0) (\<lambda>a1.
     let path1 = ''input_files/'' @ a1; w = report_open path1 w
     in bind_cpp (config_lines (read_lines (open_input path1 w)) VmClass_init) (\<lambda>vm1.
     bind_cpp (at fs 1) (\<lambda>a2.
     let path2 = ''input_files/'' @ a2; w = report_open path2 w
     in bind_cpp (config_lines (read_lines (open_input path2 w)) VmClass_init) (\<lambda>vm2.
     let bin1 = ''input_files/'' @ vm_binary vm1; w = report_open bin1 w;
         bin2 = ''input_files/'' @ vm_binary vm2; w = report_open bin2 w
     in Inr (open_input bin1 w, vm1, open_input bin2 w, vm2, w))))))"

definition project_main :: "string list \<Rightarrow> World \<Rightarrow> (int \<times> World) cpp option" where
  "project_main args w =
     (case project_setup args w of
        Inl e \<Rightarrow> Some (Inl e)
      | Inr (f1, vm1, f2, vm2, w) \<Rightarrow>
          (case run_both project_solve f1 vm1 f2 vm2 w of
             None \<Rightarrow> None
           | Some (Inl e) \<Rightarrow> Some (Inl e)
           | Some (Inr (vm1, vm2, w)) \<Rightarrow> Some (Inr (0, w))))"

section \<open>homework1.cc\<close>

record VmNamed = VmClass +
  vname :: string

definition VmNamed_init :: "string \<Rightarrow> VmNamed" where
  "VmNamed_init nm = VmClass.extend VmClass_init \<lparr>vname = nm\<rparr>"

definition hw1_dumpstate :: "VmNamed \<Rightarrow> string" where
  "hw1_dumpstate obj = (if vname obj = ''vm1'' then ''VM1'' else ''VM2'') @ ''\<newline>'' @ dumpstate obj"

text \<open>The loop that cuts a line at its blanks; there is always a last piece.\<close>

fun split_blanks :: "string \<Rightarrow> string list" where
  "split_blanks [] = [[]]"
| "split_blanks (c # cs) =
     (if c = CHR '' '' then [] # split_blanks cs
      else case split_blanks cs of [] \<Rightarrow> [[c]] | t # ts \<Rightarrow> (c # t) # ts)"

text \<open>
  The \<open>SNAPSHOT\<close> branch. Without a file name \<open>tokens[1]\<close> is outside the vector; a stream that
  could not be opened swallows what is written to it.
\<close>

definition write_snapshot :: "string \<Rightarrow> 'a VmClass_scheme \<Rightarrow> World \<Rightarrow> World cpp" where
  "write_snapshot line obj w =
     (let tokens = split_blanks line
      in if length tokens < 2 then Inl UB_Bounds
         else if \<not> writable w (tokens ! 1)
         then Inr (w\<lparr>cerr := cerr w @ ''Error opening file '' @ tokens ! 1 @ ''\<newline>''\<rparr>)
         else Inr (w\<lparr>files := (files w)(tokens ! 1 \<mapsto> print_lines (register_lines obj))\<rparr>))"

definition hw1_solve :: "string \<Rightarrow> VmNamed \<Rightarrow> World \<Rightarrow> (VmNamed \<times> World) cpp" where
  "hw1_solve line obj w =
     (let opc = fst (line_fields line)
      in if opc = ''DUMP_PROCESSOR_STATE'' then Inr (obj, w\<lparr>cout := cout w @ hw1_dumpstate obj\<rparr>)
         else if opc = ''SNAPSHOT'' then bind_cpp (write_snapshot line obj w) (\<lambda>w. Inr (obj, w))
         else bind_cpp (exec_line line obj) (\<lambda>obj. Inr (obj, w)))"

text \<open>The body of the loops of \<open>main\<close>, which pass over empty lines.\<close>

definition hw1_body :: "string \<Rightarrow> VmNamed \<Rightarrow> World \<Rightarrow> (VmNamed \<times> World) cpp" where
  "hw1_body line obj w = (if line \<noteq> [] then hw1_solve line obj w else Inr (obj, w))"

text \<open>\<open>s.find (pattern) != npos\<close>.\<close>

fun contains :: "string \<Rightarrow> string \<Rightarrow> bool" where
  "contains pat [] = (pat = [])"
| "contains pat (c # cs) = (take (length pat) (c # cs) = pat \<or> contains pat cs)"

text \<open>
  One line of a snapshot file. The length given to \<open>substr\<close> for the register number is the distance
  to the equals sign, and runs to the end of the line when that is missing or before the \<open>R\<close>.
\<close>

definition snapshot_line :: "string \<Rightarrow> 'a VmClass_scheme \<Rightarrow> 'a VmClass_scheme cpp" where
  "snapshot_line line obj =
     (let val = after_char (CHR ''='') line
      in if CHR ''R'' \<in> set line then
           let pos = length (takeWhile (\<lambda>c. c \<noteq> CHR ''R'') line);
               eqpos = length (takeWhile (\<lambda>c. c \<noteq> CHR ''='') line);
               rest = drop (pos + 1) line;
               num = (if eqpos < length line \<and> pos < eqpos then take (eqpos - pos - 1) rest else rest)
           in bind_cpp (stoi num) (\<lambda>reg_num. bind_cpp (stoi val) (\<lambda>v. set_reg reg_num (word_of_int v) obj))
         else if contains ''hi='' line then bind_cpp (stoi val) (\<lambda>v. Inr (obj\<lparr>hi_reg := word_of_int v\<rparr>))
         else if contains ''low='' line then bind_cpp (stoi val) (\<lambda>v. Inr (obj\<lparr>low_reg := word_of_int v\<rparr>))
         else Inr obj)"

fun snapshot_lines :: "string list \<Rightarrow> 'a VmClass_scheme \<Rightarrow> 'a VmClass_scheme cpp" where
  "snapshot_lines [] obj = Inr obj"
| "snapshot_lines (l # ls) obj = bind_cpp (snapshot_line l obj) (snapshot_lines ls)"

definition load_Snapshot :: "string \<Rightarrow> 'a VmClass_scheme \<Rightarrow> World \<Rightarrow> ('a VmClass_scheme \<times> World) cpp" where
  "load_Snapshot filename obj w =
     (let infile = open_input filename w;
          w = (if files w filename = None then w\<lparr>cerr := cerr w @ ''Error: File not found.'' @ ''\<newline>''\<rparr> else w)
      in bind_cpp (snapshot_lines (read_lines infile) obj) (\<lambda>obj. Inr (obj, w)))"

text \<open>What \<open>getopt (argc, argv, "v:s:")\<close> returns in turn; an unknown option comes with \<open>optopt\<close>.\<close>

datatype option_event = Opt_v string | Opt_s string | Opt_unknown int

record options =
  vm_num :: nat
  assembly_Files :: "string list"
  snapshot_Files :: "string list"
  snapshot_name :: string

definition no_snapshot :: string where
  "no_snapshot = ''Nosnapshot''"

definition option_step :: "option_event \<Rightarrow> options \<times> World \<Rightarrow> options \<times> World" where
  "option_step ev s =
     (case s of (opts, w) \<Rightarrow>
       (case ev of
          Opt_v arg \<Rightarrow>
            let opts = opts\<lparr>vm_num := vm_num opts + 1, assembly_Files := assembly_Files opts @ [arg]\<rparr>
            in (if vm_num opts > 1
                then opts\<lparr>snapshot_Files := snapshot_Files opts @ [snapshot_name opts], snapshot_name := no_snapshot\<rparr>
                else opts, w)
        | Opt_s arg \<Rightarrow> (opts\<lparr>snapshot_name := arg\<rparr>, w)
        | Opt_unknown c \<Rightarrow> (opts, w\<lparr>cerr := cerr w @ ''Unknown option: '' @ show_int c @ ''\<newline>''\<rparr>)))"

definition parse_options :: "option_event list \<Rightarrow> World \<Rightarrow> options \<times> World" where
  "parse_options evs w =
     (case fold option_step evs
             (\<lparr>vm_num = 0, assembly_Files = [], snapshot_Files = [], snapshot_name = no_snapshot\<rparr>, w) of
        (opts, w) \<Rightarrow> (opts\<lparr>snapshot_Files := snapshot_Files opts @ [snapshot_name opts]\<rparr>, w))"

text \<open>The snapshot and the configuration file of one of the machines.\<close>

definition hw1_machine ::
  "options \<Rightarrow> nat \<Rightarrow> string \<Rightarrow> 'a VmClass_scheme \<Rightarrow> World \<Rightarrow> ('a VmClass_scheme \<times> World) cpp" where
  "hw1_machine opts i a vm w =
     (let path = ''input_files_hw3/'' @ a; assemblyfile = open_input path w
      in if length (snapshot_Files opts) \<le> i then Inl UB_Bounds
         else bind_cpp (if snapshot_Files opts ! i \<noteq> no_snapshot then load_Snapshot (snapshot_Files opts ! i) vm w
                        else Inr (vm, w)) (\<lambda>(vm, w).
              let w = report_open path w
              in bind_cpp (config_lines (read_lines assemblyfile) vm) (\<lambda>vm. Inr (vm, w))))"

text \<open>
  The two machines differ in the place of the message about a configuration file that cannot be
  opened: for the second it comes before the snapshot is loaded.
\<close>

definition hw1_machine2 ::
  "options \<Rightarrow> nat \<Rightarrow> string \<Rightarrow> 'a VmClass_scheme \<Rightarrow> World \<Rightarrow> ('a VmClass_scheme \<times> World) cpp" where
  "hw1_machine2 opts i a vm w =
     (let path = ''input_files_hw3/'' @ a; assemblyfile = open_input path w; w = report_open path w
      in if length (snapshot_Files opts) \<le> i then Inl UB_Bounds
         else bind_cpp (if snapshot_Files opts ! i \<noteq> no_snapshot then load_Snapshot (snapshot_Files opts ! i) vm w
                        else Inr (vm, w)) (\<lambda>(vm, w).
              bind_cpp (config_lines (read_lines assemblyfile) vm) (\<lambda>vm. Inr (vm, w))))"

definition hw1_setup ::
  "option_event list \<Rightarrow> World \<Rightarrow> (istream \<times> VmNamed \<times> istream \<times> VmNamed \<times> World) cpp" where
  "hw1_setup evs w =
     (let (opts, w) = parse_options evs w
      in bind_cpp (at (assembly_Files opts) 0) (\<lambda>a1.
         bind_cpp (hw1_machine opts 0 a1 (VmNamed_init ''vm1'') w) (\<lambda>(vm1, w).
         bind_cpp (at (assembly_Files opts) 1) (\<lambda>a2.
         bind_cpp (hw1_machine2 opts 1 a2 (VmNamed_init ''vm2'') w) (\<lambda>(vm2, w).
         let bin1 = ''input_files_hw3/'' @ vm_binary vm1; w = report_open bin1 w;
             bin2 = ''input_files_hw3/'' @ vm_binary vm2; w = report_open bin2 w
         in Inr (open_input bin1 w, vm1, open_input bin2 w, vm2, w))))))"

definition hw1_main :: "option_event list \<Rightarrow> World \<Rightarrow> (int \<times> World) cpp option" where
  "hw1_main evs w =
     (case hw1_setup evs w of
        Inl e \<Rightarrow> Some (Inl e)
      | Inr (f1, vm1, f2, vm2, w) \<Rightarrow>
          (case run_both hw1_body f1 vm1 f2 vm2 w of
             None \<Rightarrow> None
           | Some (Inl e) \<Rightarrow> Some (Inl e)
           | Some (Inr (vm1, vm2, w)) \<Rightarrow> Some (Inr (0, w))))"

section \<open>The machines do not see each other\<close>

lemma only_processor_iff:
  "only_processor a b \<longleftrightarrow> vm_exec_slice_in_instructions b = vm_exec_slice_in_instructions a \<and>
     vm_binary b = vm_binary a \<and> VmClass.more b = VmClass.more a \<and> length (registers b) = length (registers a)"
  by (cases a; cases b) (auto simp: only_processor_def)

lemma exec_line_slice:
  "exec_line line obj = Inr obj' \<Longrightarrow> vm_exec_slice_in_instructions obj' = vm_exec_slice_in_instructions obj"
  using exec_line_processor by (auto simp: only_processor_iff)

definition project_step :: "string \<Rightarrow> VmClass \<Rightarrow> VmClass cpp" where
  "project_step line obj =
     (if fst (line_fields line) = ''DUMP_PROCESSOR_STATE'' then Inr obj else exec_line line obj)"

interpretation project: line_machine project_solve project_step
proof
  show "bind_cpp (project_solve line vm w) (\<lambda>(vm', w'). Inr vm') = project_step line vm" for line vm w
    by (cases "exec_line line vm") (simp_all add: project_solve_def project_step_def)
  show "vm_exec_slice_in_instructions vm' = vm_exec_slice_in_instructions vm"
    if "project_step line vm = Inr vm'" for line vm vm'
    using that exec_line_slice by (auto simp: project_step_def split: if_splits)
qed

definition hw1_step :: "string \<Rightarrow> VmNamed \<Rightarrow> VmNamed cpp" where
  "hw1_step line obj =
     (if line = [] \<or> fst (line_fields line) = ''DUMP_PROCESSOR_STATE'' then Inr obj
      else if fst (line_fields line) = ''SNAPSHOT''
      then (if length (split_blanks line) < 2 then Inl UB_Bounds else Inr obj)
      else exec_line line obj)"

interpretation hw1: line_machine hw1_body hw1_step
proof
  show "bind_cpp (hw1_body line vm w) (\<lambda>(vm', w'). Inr vm') = hw1_step line vm" for line vm w
    by (cases "exec_line line vm") (simp_all add: hw1_body_def hw1_solve_def hw1_step_def write_snapshot_def Let_def)
  show "vm_exec_slice_in_instructions vm' = vm_exec_slice_in_instructions vm"
    if "hw1_step line vm = Inr vm'" for line vm vm'
    using that exec_line_slice by (auto simp: hw1_step_def split: if_splits)
qed

text \<open>How a program ends is how its loop ends.\<close>

lemma project_main_run:
  assumes "project_setup args w = Inr (f1, vm1, f2, vm2, w0)"
  shows "project_main args w =
    map_option (map_sum id (\<lambda>(vm1, vm2, w). (0, w))) (run_both project_solve f1 vm1 f2 vm2 w0)"
  using assms by (auto simp: project_main_def split: option.splits sum.splits)

lemma hw1_main_run:
  assumes "hw1_setup evs w = Inr (f1, vm1, f2, vm2, w0)"
  shows "hw1_main evs w =
    map_option (map_sum id (\<lambda>(vm1, vm2, w). (0, w))) (run_both hw1_body f1 vm1 f2 vm2 w0)"
  using assms by (auto simp: hw1_main_def split: option.splits sum.splits)

text \<open>\<open>project.cc\<close> cannot execute an empty line: there is no number for \<open>stoi\<close> to read.\<close>

lemma project_step_empty: "project_step [] obj = Inl Uncaught_Exception"
  by (simp add: project_step_def exec_line_def line_fields_def istringstream_def getline_def good_def
      after_char_def stoi_def scan_int_def)

lemma exec_lines_stops:
  "l \<in> set ls \<Longrightarrow> (\<And>vm. \<not> returns (step l vm)) \<Longrightarrow> \<not> returns (exec_lines step ls vm)"
proof (induction ls arbitrary: vm)
  case (Cons k ls)
  then show ?case by (cases "step k vm") (auto simp: returns_iff)
qed simp

section \<open>What every line and every set-up keeps\<close>

lemma only_processor_trans: "only_processor a b \<Longrightarrow> only_processor b c \<Longrightarrow> only_processor a c"
  by (simp add: only_processor_iff)

lemma exec_lines_processor:
  assumes "exec_lines step ls vm = Inr vm'" and "\<And>l u u'. step l u = Inr u' \<Longrightarrow> only_processor u u'"
  shows "only_processor vm vm'"
  using assms(1)
proof (induction ls arbitrary: vm)
  case (Cons l ls)
  then obtain u where "step l vm = Inr u" and "exec_lines step ls u = Inr vm'"
    by (auto simp: bind_cpp_eq_Inr)
  then show ?case
    using assms(2) Cons.IH only_processor_trans by blast
qed simp

lemma project_step_processor: "project_step l u = Inr u' \<Longrightarrow> only_processor u u'"
  using exec_line_processor by (auto simp: project_step_def split: if_splits)

lemma hw1_step_processor: "hw1_step l u = Inr u' \<Longrightarrow> only_processor u u'"
  using exec_line_processor by (auto simp: hw1_step_def split: if_splits)

text \<open>The set-up of a machine keeps the members a program adds to the class, and the 32 registers.\<close>

definition same_extension :: "'a VmClass_scheme \<Rightarrow> 'a VmClass_scheme \<Rightarrow> bool" where
  "same_extension a b \<longleftrightarrow> VmClass.more a = VmClass.more b \<and> length (registers a) = length (registers b)"

lemma same_extension_refl [simp]: "same_extension a a"
  by (simp add: same_extension_def)

lemma same_extension_trans: "same_extension a b \<Longrightarrow> same_extension b c \<Longrightarrow> same_extension a c"
  by (simp add: same_extension_def)

lemma snapshot_line_extension: "snapshot_line l obj = Inr obj' \<Longrightarrow> same_extension obj obj'"
  by (auto simp: snapshot_line_def Let_def bind_cpp_eq_Inr set_reg_Inr same_extension_def split: if_splits)

lemma snapshot_lines_extension: "snapshot_lines ls obj = Inr obj' \<Longrightarrow> same_extension obj obj'"
  by (induction ls arbitrary: obj)
    (auto simp: bind_cpp_eq_Inr dest: snapshot_line_extension intro: same_extension_trans)

lemma config_line_extension: "config_line l obj = Inr obj' \<Longrightarrow> same_extension obj obj'"
  by (auto simp: config_line_def Let_def bind_cpp_eq_Inr same_extension_def split: if_splits)

lemma config_lines_extension: "config_lines ls obj = Inr obj' \<Longrightarrow> same_extension obj obj'"
  by (induction ls arbitrary: obj)
    (auto simp: bind_cpp_eq_Inr dest: config_line_extension intro: same_extension_trans)

lemma hw1_machine_extension:
  assumes "hw1_machine opts i a vm w = Inr (vm', w')"
  shows "same_extension vm vm'"
  using assms
  by (auto simp: hw1_machine_def load_Snapshot_def Let_def bind_cpp_eq_Inr split: if_splits
      dest!: snapshot_lines_extension config_lines_extension intro: same_extension_trans)

section \<open>Snapshots of the registers\<close>

lemma snapshot_lines_append:
  "snapshot_lines (ls @ ms) obj = bind_cpp (snapshot_lines ls obj) (snapshot_lines ms)"
proof (induction ls arbitrary: obj)
  case (Cons l ls)
  then show ?case by (cases "snapshot_line l obj") simp_all
qed simp

lemma after_char_cut: "c \<notin> set l \<Longrightarrow> after_char c (l @ c # rest) = rest"
  by (simp add: after_char_def dropWhile_append)

lemma snapshot_line_register:
  assumes "i < 32" and "length (registers obj) = 32"
  shows "snapshot_line (CHR ''R'' # show_nat i @ ''='' @ show_int (sint (v :: i32))) obj =
           Inr (obj\<lparr>registers := (registers obj)[i := v]\<rparr>)"
proof -
  have eq: "CHR ''='' \<notin> set (show_nat i)"
    by (auto dest: show_nat_digits simp: is_digit_def)
  have "stoi (show_nat i) = Inr (int i)"
    using stoi_show_int [of "[]" "int i"] assms(1) by (simp add: show_nat_show_int in_i32_def)
  moreover have "stoi (show_int (sint v)) = Inr (sint v)"
    using stoi_show_int [of "[]" "sint v"] by simp
  moreover have "after_char (CHR ''='') (CHR ''R'' # show_nat i @ ''='' @ show_int (sint v)) = show_int (sint v)"
    using after_char_cut [of "CHR ''=''" "CHR ''R'' # show_nat i"] eq by simp
  moreover have "takeWhile (\<lambda>c. c \<noteq> CHR ''='') (show_nat i @ CHR ''='' # show_int (sint v)) = show_nat i"
    using eq by (intro takeWhile_append_stop) auto
  ultimately show ?thesis
    using assms by (simp add: snapshot_line_def Let_def set_reg_def)
qed

lemma contains_set: "contains pat s \<Longrightarrow> set pat \<subseteq> set s"
proof (induction s)
  case (Cons c s)
  then show ?case
    using set_take_subset [of "length pat" "c # s"] by auto
qed simp

lemma not_in_number [simp]:
  "CHR ''R'' \<notin> set (show_int k)" "CHR ''h'' \<notin> set (show_int k)" "CHR ''='' \<notin> set (show_int k)"
  by (auto dest!: show_int_chars simp: is_digit_def)

lemma snapshot_line_hi_low:
  "snapshot_line (''hi='' @ show_int (sint (v :: i32))) obj = Inr (obj\<lparr>hi_reg := v\<rparr>)"
  "snapshot_line (''low='' @ show_int (sint (v :: i32))) obj = Inr (obj\<lparr>low_reg := v\<rparr>)"
proof -
  have n: "stoi (show_int (sint v)) = Inr (sint v)"
    using stoi_show_int [of "[]" "sint v"] by simp
  show "snapshot_line (''hi='' @ show_int (sint v)) obj = Inr (obj\<lparr>hi_reg := v\<rparr>)"
    using n by (simp add: snapshot_line_def after_char_def)
  have "\<not> contains ''hi='' (''low='' @ show_int (sint v))"
    using contains_set [of "''hi=''" "''low='' @ show_int (sint v)"] by auto
  then show "snapshot_line (''low='' @ show_int (sint v)) obj = Inr (obj\<lparr>low_reg := v\<rparr>)"
    using n by (simp add: snapshot_line_def after_char_def)
qed

lemma snapshot_registers:
  assumes "length (registers src) = 32" and "length (registers obj) = 32" and "n \<le> 32"
  shows "snapshot_lines (map (\<lambda>i. CHR ''R'' # show_nat i @ ''='' @ show_int (sint (registers src ! i))) [0..<n]) obj =
           Inr (obj\<lparr>registers := take n (registers src) @ drop n (registers obj)\<rparr>)"
  using assms(3)
proof (induction n)
  case (Suc n)
  let ?rs = "take n (registers src) @ drop n (registers obj)"
  have len: "length (registers (obj\<lparr>registers := ?rs\<rparr>)) = 32"
    using assms Suc.prems by simp
  have "?rs[n := registers src ! n] = take (Suc n) (registers src) @ drop (Suc n) (registers obj)"
    using assms(1,2) Suc.prems
    by (simp add: list_update_append take_Suc_conv_app_nth Cons_nth_drop_Suc [symmetric])
  then show ?case
    using Suc snapshot_line_register [OF _ len, of n "registers src ! n"]
    by (simp add: snapshot_lines_append)
qed simp

text \<open>The registers that a snapshot file restores are those that were written to it.\<close>

lemma load_snapshot_text:
  assumes "wf_class src" and "wf_class obj" and "files w f = Some (print_lines (register_lines src))"
  shows "load_Snapshot f obj w =
    Inr (obj\<lparr>registers := registers src, hi_reg := hi_reg src, low_reg := low_reg src\<rparr>, w)"
proof -
  have nl: "CHR ''\<newline>'' \<notin> set (show_nat i)" for i
    by (auto dest: show_nat_digits simp: is_digit_def)
  have lines: "\<forall>l \<in> set (register_lines src). CHR ''\<newline>'' \<notin> set l"
    using nl by (auto simp: register_lines_def)
  have "read_lines (stream (print_lines (register_lines src))) = register_lines src"
    using read_lines_text [OF lines, of "[]"] by (simp add: print_lines_def)
  moreover have "snapshot_lines (register_lines src) obj =
      Inr (obj\<lparr>registers := registers src, hi_reg := hi_reg src, low_reg := low_reg src\<rparr>)"
    unfolding register_lines_def snapshot_lines_append
    using snapshot_registers [of src obj 32] assms(1,2) by (simp add: wf_class_def snapshot_line_hi_low del: append.simps upt_rec_numeral)
  ultimately show ?thesis
    using assms(3) by (simp add: load_Snapshot_def open_input_def istringstream_def)
qed

text \<open>A \<open>SNAPSHOT\<close> line as it is written in the programs.\<close>

lemma split_blanks_word: "CHR '' '' \<notin> set f \<Longrightarrow> split_blanks f = [f]"
  by (induction f) auto

lemma split_blanks_append:
  "CHR '' '' \<notin> set a \<Longrightarrow> split_blanks (a @ CHR '' '' # b) = a # split_blanks b"
  by (induction a) auto

lemma fst_line_fields: "CHR '' '' \<notin> set a \<Longrightarrow> fst (line_fields (a @ CHR '' '' # b)) = a"
  by (simp add: line_fields_def istringstream_def Let_def split_beta getline_cut)

lemma write_snapshot_named:
  assumes "CHR '' '' \<notin> set f" and "writable w f"
  shows "write_snapshot (''SNAPSHOT'' @ CHR '' '' # f) obj w =
    Inr (w\<lparr>files := (files w)(f \<mapsto> print_lines (register_lines obj))\<rparr>)"
proof -
  have "split_blanks (''SNAPSHOT'' @ CHR '' '' # f) = [''SNAPSHOT'', f]"
    using split_blanks_append [of "''SNAPSHOT''" f] split_blanks_word [OF assms(1)] by simp
  then show ?thesis
    using assms(2) by (simp add: write_snapshot_def)
qed

lemma hw1_snapshot:
  assumes "CHR '' '' \<notin> set f" and "writable w f" and "wf_class src" and "wf_class obj"
  shows "\<exists>w'. hw1_solve (''SNAPSHOT'' @ CHR '' '' # f) src w = Inr (src, w') \<and>
    (\<forall>w2. files w2 = files w' \<longrightarrow> load_Snapshot f obj w2 =
       Inr (obj\<lparr>registers := registers src, hi_reg := hi_reg src, low_reg := low_reg src\<rparr>, w2))"
proof -
  let ?w = "w\<lparr>files := (files w)(f \<mapsto> print_lines (register_lines src))\<rparr>"
  have "fst (line_fields (''SNAPSHOT'' @ CHR '' '' # f)) = ''SNAPSHOT''"
    by (rule fst_line_fields) simp
  then have "hw1_solve (''SNAPSHOT'' @ CHR '' '' # f) src w = Inr (src, ?w)"
    using write_snapshot_named [OF assms(1,2), of src] by (simp add: hw1_solve_def)
  moreover have "load_Snapshot f obj w2 =
      Inr (obj\<lparr>registers := registers src, hi_reg := hi_reg src, low_reg := low_reg src\<rparr>, w2)"
    if "files w2 = files ?w" for w2
    by (rule load_snapshot_text [OF assms(3,4)]) (simp add: that)
  ultimately show ?thesis by blast
qed

text \<open>The configuration file does not touch the processor, so a machine starts with what its snapshot holds.\<close>

lemma config_lines_processor:
  "config_lines ls obj = Inr obj' \<Longrightarrow>
   registers obj' = registers obj \<and> hi_reg obj' = hi_reg obj \<and> low_reg obj' = low_reg obj"
proof (induction ls arbitrary: obj)
  case (Cons l ls)
  have "config_line l obj = Inr u \<Longrightarrow> registers u = registers obj \<and> hi_reg u = hi_reg obj \<and> low_reg u = low_reg obj" for u
    by (auto simp: config_line_def Let_def bind_cpp_eq_Inr split: if_splits)
  then show ?case
    using Cons by (fastforce simp: bind_cpp_eq_Inr)
qed simp

lemma hw1_machine_snapshot:
  assumes "hw1_machine opts i a obj w = Inr (vm, w')" and "snapshot_Files opts ! i = f" and "f \<noteq> no_snapshot"
    and "load_Snapshot f obj w = Inr (obj\<lparr>registers := registers src, hi_reg := hi_reg src, low_reg := low_reg src\<rparr>, w)"
  shows "registers vm = registers src \<and> hi_reg vm = hi_reg src \<and> low_reg vm = low_reg src"
  using assms by (auto simp: hw1_machine_def Let_def bind_cpp_eq_Inr split: if_splits dest!: config_lines_processor)

lemma files_report_open [simp]: "files (report_open path w) = files w"
  by (simp add: report_open_def)

lemma hw1_machine2_snapshot:
  assumes "hw1_machine2 opts i a obj w = Inr (vm, w')" and "snapshot_Files opts ! i = f" and "f \<noteq> no_snapshot"
    and "\<And>w2. files w2 = files w \<Longrightarrow> load_Snapshot f obj w2 =
      Inr (obj\<lparr>registers := registers src, hi_reg := hi_reg src, low_reg := low_reg src\<rparr>, w2)"
  shows "registers vm = registers src \<and> hi_reg vm = hi_reg src \<and> low_reg vm = low_reg src"
  using assms(1-3) assms(4) [of "report_open (''input_files_hw3/'' @ a) w"]
  by (auto simp: hw1_machine2_def Let_def bind_cpp_eq_Inr split: if_splits dest!: config_lines_processor)

section \<open>Options\<close>

text \<open>The options of one machine: its file, and a snapshot that may follow.\<close>

definition machine_options :: "string \<times> string option \<Rightarrow> option_event list" where
  "machine_options m = Opt_v (fst m) # (case snd m of None \<Rightarrow> [] | Some s \<Rightarrow> [Opt_s s])"

definition snapshot_of :: "string \<times> string option \<Rightarrow> string" where
  "snapshot_of m = (case snd m of None \<Rightarrow> no_snapshot | Some s \<Rightarrow> s)"

lemma map_butlast_last: "xs \<noteq> [] \<Longrightarrow> map f (butlast xs) @ [f (last xs)] = map f xs"
  by (induction xs) auto

lemma snapshot_of_simps [simp]:
  "snd m = None \<Longrightarrow> snapshot_of m = no_snapshot" "snd m = Some x \<Longrightarrow> snapshot_of m = x"
  by (simp_all add: snapshot_of_def)

lemma options_fold:
  "fold option_step (concat (map machine_options ms))
     (\<lparr>vm_num = 0, assembly_Files = [], snapshot_Files = [], snapshot_name = no_snapshot\<rparr>, w) =
   (\<lparr>vm_num = length ms, assembly_Files = map fst ms, snapshot_Files = map snapshot_of (butlast ms),
     snapshot_name = (if ms = [] then no_snapshot else snapshot_of (last ms))\<rparr>, w)"
proof (induction ms rule: rev_induct)
  case (snoc m ms)
  then show ?case
    by (cases "snd m"; cases "ms = []") (auto simp: machine_options_def option_step_def map_butlast_last)
qed simp

lemma parse_options_machines:
  assumes "ms \<noteq> []"
  shows "assembly_Files (fst (parse_options (concat (map machine_options ms)) w)) = map fst ms"
    and "snapshot_Files (fst (parse_options (concat (map machine_options ms)) w)) = map snapshot_of ms"
    and "snd (parse_options (concat (map machine_options ms)) w) = w"
proof -
  have "map snapshot_of (butlast ms) @ [snapshot_of (last ms)] = map snapshot_of ms"
    by (rule map_butlast_last [OF assms])
  then show "assembly_Files (fst (parse_options (concat (map machine_options ms)) w)) = map fst ms"
    and "snapshot_Files (fst (parse_options (concat (map machine_options ms)) w)) = map snapshot_of ms"
    and "snd (parse_options (concat (map machine_options ms)) w) = w"
    using assms by (simp_all add: parse_options_def options_fold)
qed

end
