(* ===== verification/Turn_Order.thy ===== *)
theory Turn_Order
  imports Legacy_Programs
begin

text \<open>
  The loop over two machines as a whole: the order in which it executes the lines of the two files,
  and with it everything the host gets to see, as a function of the two lists of lines and the two
  slices.
\<close>

section \<open>The specification\<close>

text \<open>Each turn takes a slice of lines from each file; \<open>True\<close> marks the lines of the first machine.\<close>

function turn_order :: "nat \<Rightarrow> nat \<Rightarrow> 'a list \<Rightarrow> 'a list \<Rightarrow> (bool \<times> 'a) list" where
  "turn_order m n xs ys =
     (if m = 0 \<or> n = 0 \<or> xs = [] \<and> ys = [] then []
      else map (Pair True) (take m xs) @ map (Pair False) (take n ys) @ turn_order m n (drop m xs) (drop n ys))"
  by pat_completeness auto
termination
proof (relation "measure (\<lambda>(m, n, xs, ys). length xs + length ys)")
  fix m n :: nat and xs ys :: "'a list"
  assume "\<not> (m = 0 \<or> n = 0 \<or> xs = [] \<and> ys = [])"
  then have "0 < m" "0 < n" "0 < length xs + length ys" by auto
  moreover from this have "length (drop m xs) + length (drop n ys) < length xs + length ys"
    by (cases "xs = []") (auto intro: add_less_le_mono)
  ultimately show "((m, n, drop m xs, drop n ys), (m, n, xs, ys)) \<in> measure (\<lambda>(m, n, xs, ys). length xs + length ys)"
    by simp
qed simp

declare turn_order.simps [simp del]

text \<open>Lines executed on one machine, and marked lines on two, with the host threaded through.\<close>

fun exec_on :: "'v solver \<Rightarrow> string list \<Rightarrow> 'v \<Rightarrow> World \<Rightarrow> ('v \<times> World) cpp" where
  "exec_on solve [] vm w = Inr (vm, w)"
| "exec_on solve (l # ls) vm w = bind_cpp (solve l vm w) (\<lambda>(vm, w). exec_on solve ls vm w)"

fun exec_order :: "'v solver \<Rightarrow> (bool \<times> string) list \<Rightarrow> 'v \<Rightarrow> 'v \<Rightarrow> World \<Rightarrow> ('v \<times> 'v \<times> World) cpp" where
  "exec_order solve [] vm1 vm2 w = Inr (vm1, vm2, w)"
| "exec_order solve ((True, l) # ls) vm1 vm2 w =
     bind_cpp (solve l vm1 w) (\<lambda>(vm1, w). exec_order solve ls vm1 vm2 w)"
| "exec_order solve ((False, l) # ls) vm1 vm2 w =
     bind_cpp (solve l vm2 w) (\<lambda>(vm2, w). exec_order solve ls vm1 vm2 w)"

text \<open>The order is an interleaving: it has the lines of each file, each once and in their order.\<close>

definition lines_of :: "bool \<Rightarrow> (bool \<times> 'a) list \<Rightarrow> 'a list" where
  "lines_of b ls = map snd (filter (\<lambda>l. fst l = b) ls)"

lemma lines_of_Nil [simp]: "lines_of b [] = []"
  by (simp add: lines_of_def)

lemma lines_of_append [simp]: "lines_of b (xs @ ys) = lines_of b xs @ lines_of b ys"
  by (simp add: lines_of_def)

lemma lines_of_one [simp]: "lines_of b (map (Pair c) xs) = (if b = c then xs else [])"
  by (induction xs) (auto simp: lines_of_def)

lemma turn_order_lines:
  assumes "m \<noteq> 0" and "n \<noteq> 0"
  shows "lines_of True (turn_order m n xs ys) = xs" and "lines_of False (turn_order m n xs ys) = ys"
proof -
  have "lines_of b (turn_order m n xs ys) = (if b then xs else ys)" for b
    using assms
  proof (induction m n xs ys rule: turn_order.induct)
    case (1 m n xs ys)
    show ?case
    proof (cases "xs = [] \<and> ys = []")
      case True
      then show ?thesis by (simp add: turn_order.simps lines_of_def)
    next
      case False
      then show ?thesis
        using 1 by (subst turn_order.simps) (cases b; simp)
    qed
  qed
  then show "lines_of True (turn_order m n xs ys) = xs" and "lines_of False (turn_order m n xs ys) = ys"
    by simp_all
qed

lemma exec_order_append:
  "exec_order solve (xs @ ys) vm1 vm2 w =
     bind_cpp (exec_order solve xs vm1 vm2 w) (\<lambda>(vm1, vm2, w). exec_order solve ys vm1 vm2 w)"
proof (induction solve xs vm1 vm2 w rule: exec_order.induct)
  case (2 solve l ls vm1 vm2 w)
  then show ?case by (cases "solve l vm1 w") auto
next
  case (3 solve l ls vm1 vm2 w)
  then show ?case by (cases "solve l vm2 w") auto
qed simp

lemma exec_order_one:
  "exec_order solve (map (Pair True) ls) vm1 vm2 w = bind_cpp (exec_on solve ls vm1 w) (\<lambda>(vm1, w). Inr (vm1, vm2, w))"
  "exec_order solve (map (Pair False) ls) vm1 vm2 w = bind_cpp (exec_on solve ls vm2 w) (\<lambda>(vm2, w). Inr (vm1, vm2, w))"
proof (induction ls arbitrary: vm1 vm2 w)
  case (Cons l ls)
  {
    case 1
    then show ?case using Cons by (cases "solve l vm1 w") auto
  next
    case 2
    then show ?case using Cons by (cases "solve l vm2 w") auto
  }
qed simp_all

section \<open>The loop keeps the order\<close>

lemma skip_lines_failed: "failbit inp \<Longrightarrow> skip_lines n inp = inp"
  by (induction n) (cases inp; simp add: getline_def good_def)+

text \<open>A slice executes the next lines, and leaves the stream behind them.\<close>

lemma run_slice_exec:
  "run_slice solve n inp vm w =
     bind_cpp (exec_on solve (take n (read_lines inp)) vm w) (\<lambda>(vm, w). Inr (skip_lines n inp, vm, w))"
proof (induction n arbitrary: inp vm w)
  case (Suc n)
  obtain line inp1 where g: "getline (CHR ''\<newline>'') [] inp = (line, inp1)"
    by (cases "getline (CHR ''\<newline>'') [] inp")
  show ?case
  proof (cases "failbit inp1")
    case True
    then show ?thesis
      using g read_lines_Cons [OF g] skip_lines_failed [OF True] by simp
  next
    case False
    then show ?thesis
      using g read_lines_Cons [OF g] Suc.IH [of inp1] by (cases "solve line vm w") auto
  qed
qed simp

lemma skip_lines_live: "live_stream inp \<Longrightarrow> live_stream (skip_lines n inp)"
proof (induction n arbitrary: inp)
  case (Suc n)
  show ?case
    using Suc.IH getline_live(1) [OF Suc.prems, of "CHR ''\<newline>''" "[]"]
    by (cases "getline (CHR ''\<newline>'') [] inp") simp
qed simp

lemma skip_lines_left:
  assumes "live_stream inp"
  shows "chars_left (skip_lines n inp) \<le> chars_left inp"
    and "0 < n \<Longrightarrow> \<not> eofbit inp \<Longrightarrow> chars_left (skip_lines n inp) < chars_left inp"
proof -
  have "run_slice (\<lambda>_ _ _. Inr ((), World_init)) n inp () World_init = Inr (skip_lines n inp, (), World_init)"
  proof -
    have "exec_on (\<lambda>_ _ _. Inr ((), World_init)) ls () World_init = Inr ((), World_init)" for ls
      by (induction ls) simp_all
    then show ?thesis by (simp add: run_slice_exec)
  qed
  from run_slice_live [OF this assms] show "chars_left (skip_lines n inp) \<le> chars_left inp"
    and "0 < n \<Longrightarrow> \<not> eofbit inp \<Longrightarrow> chars_left (skip_lines n inp) < chars_left inp"
    by simp_all
qed

context line_machine begin

lemma exec_on_slice:
  "exec_on solve ls vm w = Inr (vm', w') \<Longrightarrow>
   vm_exec_slice_in_instructions vm' = vm_exec_slice_in_instructions vm"
proof (induction ls arbitrary: vm w)
  case (Cons l ls)
  then show ?case
    using step_slice [OF solve_Inr] by (fastforce simp: bind_cpp_eq_Inr)
qed simp

text \<open>A turn of the loop is the first part of the order.\<close>

lemma run_turn_exec:
  assumes "vm_exec_slice_in_instructions vm1 = Some m" and "vm_exec_slice_in_instructions vm2 = Some n"
  shows "run_turn solve f1 vm1 f2 vm2 w =
    bind_cpp (exec_order solve (map (Pair True) (take (nat m) (read_lines f1)) @
        map (Pair False) (take (nat n) (read_lines f2))) vm1 vm2 w)
      (\<lambda>(vm1, vm2, w). Inr (skip_lines (nat m) f1, vm1, skip_lines (nat n) f2, vm2, w))"
proof -
  let ?ls = "take (nat m) (read_lines f1)"
  show ?thesis
  proof (cases "exec_on solve ?ls vm1 w")
    case (Inl e)
    then show ?thesis
      using assms by (simp add: run_turn_def slice_size_def run_slice_exec exec_order_append exec_order_one)
  next
    case (Inr x)
    obtain u w1 where "x = (u, w1)" by (cases x)
    then show ?thesis
      using assms Inr
      by (cases "exec_on solve (take (nat n) (read_lines f2)) vm2 w1")
        (auto simp: run_turn_def slice_size_def run_slice_exec exec_order_append exec_order_one)
  qed
qed

lemma exec_order_slices:
  "exec_order solve xs vm1 vm2 w = Inr (u1, u2, w') \<Longrightarrow>
   vm_exec_slice_in_instructions u1 = vm_exec_slice_in_instructions vm1 \<and>
   vm_exec_slice_in_instructions u2 = vm_exec_slice_in_instructions vm2"
proof (induction xs arbitrary: vm1 vm2 w)
  case (Cons p xs)
  obtain b l where p: "p = (b, l)" by (cases p)
  show ?case
  proof (cases b)
    case True
    then obtain v w1 where "solve l vm1 w = Inr (v, w1)" and "exec_order solve xs v vm2 w1 = Inr (u1, u2, w')"
      using Cons.prems p by (auto simp: bind_cpp_eq_Inr)
    then show ?thesis
      using Cons.IH step_slice [OF solve_Inr] by metis
  next
    case False
    then obtain v w1 where "solve l vm2 w = Inr (v, w1)" and "exec_order solve xs vm1 v w1 = Inr (u1, u2, w')"
      using Cons.prems p by (auto simp: bind_cpp_eq_Inr)
    then show ?thesis
      using Cons.IH step_slice [OF solve_Inr] by metis
  qed
qed simp

lemma run_both_order:
  assumes "vm_exec_slice_in_instructions vm1 = Some m" and "vm_exec_slice_in_instructions vm2 = Some n"
    and "0 < m" and "0 < n" and "live_stream f1" and "live_stream f2"
  shows "run_both solve f1 vm1 f2 vm2 w =
    Some (exec_order solve (turn_order (nat m) (nat n) (read_lines f1) (read_lines f2)) vm1 vm2 w)"
  using assms
proof (induction "chars_left f1 + chars_left f2" arbitrary: f1 f2 vm1 vm2 w rule: less_induct)
  case less
  let ?now = "map (Pair True) (take (nat m) (read_lines f1)) @ map (Pair False) (take (nat n) (read_lines f2))"
  let ?later = "turn_order (nat m) (nat n) (drop (nat m) (read_lines f1)) (drop (nat n) (read_lines f2))"
  show ?case
  proof (cases "eofbit f1 \<and> eofbit f2")
    case True
    then show ?thesis
      using read_lines_bad [of f1] read_lines_bad [of f2]
      by (subst run_both.simps) (simp add: good_def turn_order.simps)
  next
    case False
    let ?g1 = "skip_lines (nat m) f1" and ?g2 = "skip_lines (nat n) f2"
    have smaller: "chars_left ?g1 + chars_left ?g2 < chars_left f1 + chars_left f2"
      using False skip_lines_left [OF less.prems(5), of "nat m"] skip_lines_left [OF less.prems(6), of "nat n"]
        less.prems(3,4) by fastforce
    have order: "exec_order solve (turn_order (nat m) (nat n) (read_lines f1) (read_lines f2)) vm1 vm2 w =
        bind_cpp (exec_order solve ?now vm1 vm2 w) (\<lambda>(vm1, vm2, w). exec_order solve ?later vm1 vm2 w)"
    proof -
      have "turn_order (nat m) (nat n) (read_lines f1) (read_lines f2) = ?now @ ?later"
        using less.prems(3,4) by (subst turn_order.simps) (simp add: turn_order.simps)
      then show ?thesis by (simp only: exec_order_append)
    qed
    show ?thesis
    proof (cases "exec_order solve ?now vm1 vm2 w")
      case (Inl e)
      then show ?thesis
        using False run_turn_exec [OF less.prems(1,2), of f1 f2 w]
        by (subst run_both.simps) (simp add: order)
    next
      case (Inr x)
      obtain u1 u2 w1 where x: "x = (u1, u2, w1)" by (cases x)
      note slices = exec_order_slices [OF Inr [unfolded x]]
      have "run_both solve ?g1 u1 ?g2 u2 w1 = Some (exec_order solve ?later u1 u2 w1)"
        using less.hyps [OF smaller, of u1 u2 w1] slices less.prems skip_lines_live
        by (simp add: read_lines_skip)
      then show ?thesis
        using False Inr x run_turn_exec [OF less.prems(1,2), of f1 f2 w]
        by (subst run_both.simps) (simp add: order)
    qed
  qed
qed

end

section \<open>The programs\<close>

text \<open>What \<open>main\<close> does once the machines are set up, and what becomes of the machines.\<close>

lemma hw1_main_order:
  assumes "hw1_setup evs w = Inr (f1, vm1, f2, vm2, w0)"
    and "live_stream f1" and "live_stream f2"
    and "vm_exec_slice_in_instructions vm1 = Some m" and "vm_exec_slice_in_instructions vm2 = Some n"
    and "0 < m" and "0 < n"
  shows "hw1_main evs w = Some (map_sum id (\<lambda>(u1, u2, w'). (0, w'))
      (exec_order hw1_body (turn_order (nat m) (nat n) (read_lines f1) (read_lines f2)) vm1 vm2 w0))"
  using hw1_main_run [OF assms(1)] hw1.run_both_order [OF assms(4-7,2,3), of w0] by simp

lemma project_main_order:
  assumes "project_setup args w = Inr (f1, vm1, f2, vm2, w0)"
    and "live_stream f1" and "live_stream f2"
    and "vm_exec_slice_in_instructions vm1 = Some m" and "vm_exec_slice_in_instructions vm2 = Some n"
    and "0 < m" and "0 < n"
  shows "project_main args w = Some (map_sum id (\<lambda>(u1, u2, w'). (0, w'))
      (exec_order project_solve (turn_order (nat m) (nat n) (read_lines f1) (read_lines f2)) vm1 vm2 w0))"
  using project_main_run [OF assms(1)] project.run_both_order [OF assms(4-7,2,3), of w0] by simp

text \<open>
  An empty line in one of the files of \<open>project.cc\<close>: what comes before it in the order is executed, and
  then \<open>stoi\<close> throws on the empty text.
\<close>

lemma project_solve_empty: "project_solve [] obj w = Inl Uncaught_Exception"
  by (simp add: project_solve_def exec_line_def line_fields_def istringstream_def getline_def good_def
      after_char_def stoi_def scan_int_def)

lemma exec_order_blank:
  assumes "[] \<in> snd ` set order"
  shows "exec_order project_solve order vm1 vm2 w =
    (case exec_order project_solve (takeWhile (\<lambda>l. snd l \<noteq> []) order) vm1 vm2 w of
       Inl e \<Rightarrow> Inl e
     | Inr r \<Rightarrow> Inl Uncaught_Exception)"
proof -
  let ?before = "takeWhile (\<lambda>l. snd l \<noteq> []) order" and ?rest = "dropWhile (\<lambda>l. snd l \<noteq> []) order"
  have "?rest \<noteq> []"
    using assms by (force simp: dropWhile_eq_Nil_conv)
  then have "snd (hd ?rest) = []" and r: "?rest = hd ?rest # tl ?rest"
    using hd_dropWhile [of "\<lambda>l. snd l \<noteq> []" order] by simp_all
  then obtain b where "hd ?rest = (b, [])"
    by (cases "hd ?rest") simp
  then have blank: "exec_order project_solve ?rest u1 u2 w' = Inl Uncaught_Exception" for u1 u2 w'
    by (subst r) (cases b; simp add: project_solve_empty)
  have "exec_order project_solve order vm1 vm2 w =
      bind_cpp (exec_order project_solve ?before vm1 vm2 w) (\<lambda>(u1, u2, w'). exec_order project_solve ?rest u1 u2 w')"
    using exec_order_append [of project_solve ?before ?rest] by simp
  then show ?thesis
    by (cases "exec_order project_solve ?before vm1 vm2 w") (auto simp: blank)
qed

lemma lines_of_set: "set (lines_of True order) \<union> set (lines_of False order) = snd ` set order"
  by (force simp: lines_of_def)

lemma project_main_blank:
  assumes "project_setup args w = Inr (f1, vm1, f2, vm2, w0)"
    and "live_stream f1" and "live_stream f2"
    and "vm_exec_slice_in_instructions vm1 = Some m" and "vm_exec_slice_in_instructions vm2 = Some n"
    and "0 < m" and "0 < n" and "[] \<in> set (read_lines f1) \<union> set (read_lines f2)"
    and "turn_order (nat m) (nat n) (read_lines f1) (read_lines f2) = order"
  shows "project_main args w =
    Some (case exec_order project_solve (takeWhile (\<lambda>l. snd l \<noteq> []) order) vm1 vm2 w0 of
            Inl e \<Rightarrow> Inl e
          | Inr r \<Rightarrow> Inl Uncaught_Exception)"
proof -
  have "[] \<in> snd ` set order"
    using assms(6-9) turn_order_lines [of "nat m" "nat n" "read_lines f1" "read_lines f2"]
    by (auto simp flip: lines_of_set)
  then show ?thesis
    using project_main_order [OF assms(1-7)] exec_order_blank [of order vm1 vm2 w0]
    by (simp add: assms(9) split: sum.splits)
qed

end
