(* ===== verification/Ip_Pattern.thy ===== *)
theory Ip_Pattern
  imports Cpp_Iostream
begin

text \<open>
  The regular expression with which the client looks for an address in a \<open>MIGRATE\<close> line, as the
  matcher that \<open>std::regex_search\<close> is for it, and as the set of texts it describes.
\<close>

section \<open>The matcher\<close>

text \<open>
  The regular expression: four groups of one to three digits with dots between them. A group before
  a dot must be a whole run of digits from its start, the last one takes up to three digits.
\<close>

definition octet_dot :: "string \<Rightarrow> (string \<times> string) option" where
  "octet_dot s =
     (let ds = takeWhile is_digit s; rest = dropWhile is_digit s
      in if 1 \<le> length ds \<and> length ds \<le> 3 \<and> rest \<noteq> [] \<and> hd rest = CHR ''.''
         then Some (ds @ ''.'', tl rest) else None)"

definition match_ip :: "string \<Rightarrow> string option" where
  "match_ip s =
     (case octet_dot s of None \<Rightarrow> None | Some (a, s) \<Rightarrow>
     (case octet_dot s of None \<Rightarrow> None | Some (b, s) \<Rightarrow>
     (case octet_dot s of None \<Rightarrow> None | Some (c, s) \<Rightarrow>
       let d = take 3 (takeWhile is_digit s) in if d = [] then None else Some (a @ b @ c @ d))))"

text \<open>\<open>regex_search\<close> finds the leftmost match.\<close>

fun find_ip :: "string \<Rightarrow> string option" where
  "find_ip [] = None"
| "find_ip (c # cs) = (case match_ip (c # cs) of None \<Rightarrow> find_ip cs | Some ip \<Rightarrow> Some ip)"

section \<open>The texts the expression describes\<close>

definition octet :: "string \<Rightarrow> bool" where
  "octet d \<longleftrightarrow> 1 \<le> length d \<and> length d \<le> 3 \<and> (\<forall>c \<in> set d. is_digit c)"

inductive ip_text :: "string \<Rightarrow> bool" where
  "octet a \<Longrightarrow> octet b \<Longrightarrow> octet c \<Longrightarrow> octet d \<Longrightarrow> ip_text (a @ ''.'' @ b @ ''.'' @ c @ ''.'' @ d)"

inductive_cases ip_textE: "ip_text m"

lemma dot_not_digit [simp]: "\<not> is_digit (CHR ''.'')"
  by (simp add: is_digit_def)

text \<open>A group in front of a dot can be read in one way only.\<close>

lemma octet_dot_text:
  assumes "octet a"
  shows "octet_dot (a @ CHR ''.'' # r) = Some (a @ ''.'', r)"
proof -
  have "takeWhile is_digit (a @ CHR ''.'' # r) = a" and "dropWhile is_digit (a @ CHR ''.'' # r) = CHR ''.'' # r"
    using assms by (simp_all add: octet_def takeWhile_append_stop dropWhile_append_stop)
  then show ?thesis
    using assms by (simp add: octet_dot_def octet_def)
qed

lemma octet_dot_Some:
  assumes "octet_dot s = Some (x, r)"
  obtains a where "octet a" and "x = a @ ''.''" and "s = a @ CHR ''.'' # r"
proof
  let ?a = "takeWhile is_digit s"
  have d: "1 \<le> length ?a \<and> length ?a \<le> 3" "dropWhile is_digit s = CHR ''.'' # r" and x: "x = ?a @ ''.''"
    using assms by (cases "dropWhile is_digit s"; auto simp: octet_dot_def Let_def split: if_splits)+
  show "octet ?a"
    using d(1) by (auto simp: octet_def dest: set_takeWhileD)
  show "x = ?a @ ''.''" by (rule x)
  show "s = ?a @ CHR ''.'' # r"
    by (metis d(2) takeWhile_dropWhile_id)
qed

lemma match_ip_text:
  assumes "octet a" and "octet b" and "octet c"
  shows "match_ip (a @ ''.'' @ b @ ''.'' @ c @ ''.'' @ rest) =
    (let d = take 3 (takeWhile is_digit rest)
     in if d = [] then None else Some (a @ ''.'' @ b @ ''.'' @ c @ ''.'' @ d))"
  using assms by (simp add: match_ip_def octet_dot_text Let_def)

lemma match_ip_sound:
  assumes "match_ip s = Some ip"
  shows "\<exists>post. s = ip @ post \<and> ip_text ip"
proof -
  obtain a s1 b s2 c s3 where a: "octet_dot s = Some (a, s1)" and b: "octet_dot s1 = Some (b, s2)"
    and c: "octet_dot s2 = Some (c, s3)"
    using assms by (auto simp: match_ip_def split: option.splits)
  obtain a' b' c' where o: "octet a'" "octet b'" "octet c'"
    and s: "s = a' @ ''.'' @ b' @ ''.'' @ c' @ ''.'' @ s3"
    using octet_dot_Some [OF a] octet_dot_Some [OF b] octet_dot_Some [OF c] by (metis append_Cons append_Nil)
  let ?d = "take 3 (takeWhile is_digit s3)"
  have ip: "ip = a' @ ''.'' @ b' @ ''.'' @ c' @ ''.'' @ ?d" and d: "?d \<noteq> []"
    using assms unfolding s match_ip_text [OF o] by (auto simp: Let_def split: if_splits)
  have "octet ?d"
    using d by (auto simp: octet_def Suc_le_eq dest!: in_set_takeD set_takeWhileD)
  moreover have "s3 = ?d @ drop 3 (takeWhile is_digit s3) @ dropWhile is_digit s3"
    by (simp flip: append_assoc)
  ultimately show ?thesis
    using o s ip ip_text.intros by (metis append_assoc)
qed

lemma match_ip_complete:
  assumes "ip_text m"
  shows "\<exists>ip. match_ip (m @ post) = Some ip \<and> length m \<le> length ip"
proof -
  obtain a b c d where o: "octet a" "octet b" "octet c" and d: "octet d"
    and m: "m = a @ ''.'' @ b @ ''.'' @ c @ ''.'' @ d"
    using assms by (rule ip_text.cases)
  let ?e = "take 3 (takeWhile is_digit (d @ post))"
  have "d \<noteq> []" "length d \<le> 3" "takeWhile is_digit (d @ post) = d @ takeWhile is_digit post"
    using d by (auto simp: octet_def takeWhile_append)
  then have "?e \<noteq> []" and "length d \<le> length ?e"
    by simp_all
  then show ?thesis
    using match_ip_text [OF o, of "d @ post"] m by (simp add: Let_def)
qed

section \<open>The search\<close>

text \<open>An occurrence of a described text, by what stands before it.\<close>

definition ip_at :: "string \<Rightarrow> string \<Rightarrow> string \<Rightarrow> bool" where
  "ip_at s pre m \<longleftrightarrow> ip_text m \<and> (\<exists>post. s = pre @ m @ post)"

lemma ip_at_Nil: "ip_at s [] m \<Longrightarrow> \<exists>ip. match_ip s = Some ip \<and> length m \<le> length ip"
  using match_ip_complete by (auto simp: ip_at_def)

lemma ip_at_Cons: "ip_at (c # cs) (x # pre) m \<longleftrightarrow> x = c \<and> ip_at cs pre m"
  by (auto simp: ip_at_def)

lemma not_ip_at_Nil: "\<not> ip_at [] pre m"
  by (auto simp: ip_at_def octet_def elim!: ip_textE)

text \<open>The search finds the leftmost occurrence, and the longest one there; or there is none.\<close>

lemma find_ip_None: "find_ip s = None \<Longrightarrow> \<not> ip_at s pre m"
proof (induction s arbitrary: pre)
  case Nil
  then show ?case by (simp add: not_ip_at_Nil)
next
  case (Cons c cs)
  then have n: "match_ip (c # cs) = None" and f: "find_ip cs = None"
    by (simp_all split: option.splits)
  show ?case
  proof (cases pre)
    case Nil
    then show ?thesis
      using ip_at_Nil [of "c # cs" m] n by auto
  next
    case (Cons x pre')
    then show ?thesis
      using Cons.IH [OF f] by (simp add: ip_at_Cons)
  qed
qed

lemma find_ip_Some:
  assumes "find_ip s = Some ip"
  shows "\<exists>pre. ip_at s pre ip \<and>
    (\<forall>pre' m. ip_at s pre' m \<longrightarrow> length pre < length pre' \<or> pre' = pre \<and> length m \<le> length ip)"
  using assms
proof (induction s)
  case (Cons c cs)
  show ?case
  proof (cases "match_ip (c # cs)")
    case None
    then obtain pre where p: "ip_at cs pre ip"
      and least: "\<And>pre' m. ip_at cs pre' m \<Longrightarrow> length pre < length pre' \<or> pre' = pre \<and> length m \<le> length ip"
      using Cons by auto
    have "length (c # pre) < length pre' \<or> pre' = c # pre \<and> length m \<le> length ip"
      if "ip_at (c # cs) pre' m" for pre' m
      using that ip_at_Nil [of "c # cs" m] None least by (cases pre') (auto simp: ip_at_Cons)
    then show ?thesis
      using p by (intro exI [of _ "c # pre"]) (simp add: ip_at_Cons)
  next
    case (Some ip')
    then have "match_ip (c # cs) = Some ip"
      using Cons.prems by simp
    then show ?thesis
      using match_ip_sound ip_at_Nil [of "c # cs"] by (intro exI [of _ "[]"]) (fastforce simp: ip_at_def)
  qed
qed simp

end
