(* ===== verification/Legacy_Migration.thy ===== *)
theory Legacy_Migration
  imports Legacy_Programs Ip_Pattern
begin

text \<open>
  The client and the server of homeworks 2 and 3, between which a machine migrates: the client sends
  the registers, the number of executed lines and the name of the instruction file as text, the
  server reads them and goes on in its own copy of the file. The Winsock calls are not part of the
  sources; how they end is an argument of the model.
\<close>

section \<open>The machine of both programs\<close>

record VmMigr = VmNamed +
  vpc :: int

definition VmMigr_init :: "string \<Rightarrow> VmMigr" where
  "VmMigr_init nm = VmNamed.extend (VmNamed_init nm) \<lparr>vpc = 0\<rparr>"

section \<open>The client\<close>

text \<open>
  How the sequence of socket calls ends: a call fails with an error code, or \<open>send\<close> accepts the first
  so many characters of the message. The code takes any count for success.
\<close>

datatype net_outcome =
    Startup_failed int
  | Socket_failed int
  | Connect_failed int
  | Send_failed int
  | Sent nat

text \<open>
  A line either leaves the program running, or exits with status 0; then the text is what \<open>send\<close> accepted.
\<close>

datatype 'v line_result = Next 'v World | Migrated string World

definition migration_text :: "VmMigr \<Rightarrow> string \<Rightarrow> string" where
  "migration_text obj filename =
     concat (map (\<lambda>i. show_int (sint (registers obj ! i)) @ '' '') [0..<32])
     @ show_int (vpc obj) @ '' '' @ filename @ '' ''"

text \<open>\<open>strlen\<close> stops at the first null character.\<close>

abbreviation NUL :: char where
  "NUL \<equiv> CHR 0x00"

definition c_str :: "string \<Rightarrow> string" where
  "c_str s = takeWhile (\<lambda>c. c \<noteq> NUL) s"

definition print_err :: "string \<Rightarrow> int \<Rightarrow> World \<Rightarrow> World" where
  "print_err what code w = w\<lparr>cerr := cerr w @ what @ '' failed: '' @ show_int code @ ''\<newline>''\<rparr>"

definition client_migrate ::
  "(World \<Rightarrow> string \<Rightarrow> net_outcome) \<Rightarrow> string \<Rightarrow> VmMigr \<Rightarrow> string \<Rightarrow> World \<Rightarrow> VmMigr line_result" where
  "client_migrate net ip obj filename w =
     (let w = w\<lparr>cout := cout w @ ''Connecting to IP address: '' @ ip @ ''\<newline>''\<rparr>;
          msg = c_str (migration_text obj filename)
      in case net w msg of
           Startup_failed n \<Rightarrow> Next obj (print_err ''WSAStartup'' n w)
         | Socket_failed n \<Rightarrow> Next obj (print_err ''socket'' n w)
         | Connect_failed n \<Rightarrow> Next obj (print_err ''connect'' n w)
         | Send_failed n \<Rightarrow> Next obj (print_err ''send'' n w)
         | Sent n \<Rightarrow> Migrated (take n msg) w)"

text \<open>The part of \<open>solve\<close> that the client shares with the server.\<close>

definition migr_solve :: "string \<Rightarrow> VmMigr \<Rightarrow> World \<Rightarrow> (VmMigr \<times> World) cpp" where
  "migr_solve line obj w =
     (let opc = fst (line_fields line)
      in if opc = ''DUMP_PROCESSOR_STATE'' then Inr (obj, w\<lparr>cout := cout w @ dumpstate obj\<rparr>)
         else if opc = ''SNAPSHOT'' then bind_cpp (write_snapshot line obj w) (\<lambda>w. Inr (obj, w))
         else bind_cpp (exec_line line obj) (\<lambda>obj. Inr (obj, w)))"

definition client_rest :: "string \<Rightarrow> VmMigr \<Rightarrow> World \<Rightarrow> VmMigr line_result cpp" where
  "client_rest line obj w = bind_cpp (migr_solve line obj w) (\<lambda>(obj, w). Inr (Next obj w))"

definition client_solve ::
  "(World \<Rightarrow> string \<Rightarrow> net_outcome) \<Rightarrow> string \<Rightarrow> VmMigr \<Rightarrow> string \<Rightarrow> World \<Rightarrow> VmMigr line_result cpp" where
  "client_solve net line obj filename w =
     (if \<not> in_i32 (vpc obj + 1) then Inl UB_Overflow
      else let obj = obj\<lparr>vpc := vpc obj + 1\<rparr>
           in if fst (line_fields line) = ''MIGRATE'' then
                let w = w\<lparr>cout := cout w @ ''Before Migration'' @ ''\<newline>'' @ dumpstate obj\<rparr>
                in case find_ip line of
                     Some ip \<Rightarrow> Inr (client_migrate net ip obj filename w)
                   | None \<Rightarrow> client_rest line obj (w\<lparr>cout := cout w @ ''No IP address found.'' @ ''\<newline>''\<rparr>)
              else client_rest line obj w)"

text \<open>The loop of \<open>main\<close> over the lines of the instruction file.\<close>

fun client_loop ::
  "(World \<Rightarrow> string \<Rightarrow> net_outcome) \<Rightarrow> string list \<Rightarrow> VmMigr \<Rightarrow> World \<Rightarrow> VmMigr line_result cpp" where
  "client_loop net [] vm w = Inr (Next vm w)"
| "client_loop net (line # ls) vm w =
     (if line \<noteq> []
      then bind_cpp (client_solve net line vm (vm_binary vm) w) (\<lambda>r.
             case r of Next vm w \<Rightarrow> client_loop net ls vm w | Migrated msg w \<Rightarrow> Inr (Migrated msg w))
      else client_loop net ls vm w)"

text \<open>
  \<open>main\<close>: the exit status, the characters that were sent, if any, and the host. Only the first machine
  of the command line is run.
\<close>

definition client_main ::
  "(World \<Rightarrow> string \<Rightarrow> net_outcome) \<Rightarrow> option_event list \<Rightarrow> World \<Rightarrow> (int \<times> string option \<times> World) cpp" where
  "client_main net evs w =
     (let (opts, w) = parse_options evs w
      in bind_cpp (at (assembly_Files opts) 0) (\<lambda>a1.
         bind_cpp (hw1_machine opts 0 a1 (VmMigr_init ''vm1'') w) (\<lambda>(vm1, w).
         let bin1 = ''input_files_hw3/'' @ vm_binary vm1; f1 = open_input bin1 w; w = report_open bin1 w
         in bind_cpp (client_loop net (read_lines f1) vm1 w) (\<lambda>r.
            Inr (case r of Next vm w \<Rightarrow> (0, None, w) | Migrated msg w \<Rightarrow> (0, Some msg, w))))))"

section \<open>The server\<close>

text \<open>
  The buffer has 1024 characters, of which \<open>recv\<close> fills the first; the rest is not initialised, and
  holds whatever it held before, if it holds a value at all (\<open>None\<close> is a character without one). It is
  read as a C string before its end is marked, so up to the first null character, wherever that is.
\<close>

definition buffer_size :: nat where
  "buffer_size = 1024"

fun c_read :: "char option list \<Rightarrow> string cpp" where
  "c_read [] = Inl UB_Bounds"
| "c_read (None # cs) = Inl UB_Uninitialized"
| "c_read (Some c # cs) = (if c = NUL then Inr [] else bind_cpp (c_read cs) (\<lambda>s. Inr (c # s)))"

definition received_text :: "string \<Rightarrow> char option list \<Rightarrow> string cpp" where
  "received_text msg old = c_read (map Some msg @ drop (length msg) old)"

fun read_registers :: "i32 list \<Rightarrow> istream \<Rightarrow> i32 list \<times> istream" where
  "read_registers [] inp = ([], inp)"
| "read_registers (r # rs) inp =
     (let (r', inp) = extract_i32 r inp; (rs', inp) = read_registers rs inp in (r' # rs', inp))"

definition parse_migration :: "string \<Rightarrow> VmMigr \<Rightarrow> VmMigr \<times> string" where
  "parse_migration text vm =
     (let ss2 = istringstream text;
          (rs, ss2) = read_registers (registers vm) ss2;
          (pc', ss2) = extract_i32 (word_of_int (vpc vm)) ss2;
          (filename, ss2) = extract_string [] ss2
      in (vm\<lparr>registers := rs, vpc := sint pc'\<rparr>, filename))"

definition print_received :: "VmMigr \<Rightarrow> string" where
  "print_received vm =
     ''PC: '' @ show_int (vpc vm) @ ''\<newline>'' @ ''Registers: ''
     @ concat (map (\<lambda>i. show_int (sint (registers vm ! i)) @ '' '') [0..<32]) @ ''\<newline>''"

fun server_loop :: "string list \<Rightarrow> VmMigr \<Rightarrow> World \<Rightarrow> (VmMigr \<times> World) cpp" where
  "server_loop [] vm w = Inr (vm, w)"
| "server_loop (line # ls) vm w =
     (if line \<noteq> [] then bind_cpp (migr_solve line vm w) (\<lambda>(vm, w). server_loop ls vm w)
      else server_loop ls vm w)"

text \<open>What \<open>main\<close> does with a message, up to the final status of the machine.\<close>

definition serve :: "string \<Rightarrow> char option list \<Rightarrow> World \<Rightarrow> (VmMigr \<times> World) cpp" where
  "serve msg old w =
     bind_cpp (received_text msg old) (\<lambda>text.
     let (vm, filename) = parse_migration text (VmMigr_init []);
         w = w\<lparr>cout := cout w @ print_received vm\<rparr>;
         path = ''input_files_hw3/'' @ filename; f1 = open_input path w; w = report_open path w
     in bind_cpp (server_loop (read_lines (skip_lines (nat (vpc vm)) f1)) vm w) (\<lambda>(vm, w).
        if length msg < buffer_size then Inr (vm, w) else Inl UB_Bounds))"

datatype server_stage = S_startup | S_socket | S_bind | S_listen | S_accept | S_recv

fun stage_name :: "server_stage \<Rightarrow> string" where
  "stage_name S_startup = ''WSAStartup''"
| "stage_name S_socket = ''socket''"
| "stage_name S_bind = ''bind''"
| "stage_name S_listen = ''listen''"
| "stage_name S_accept = ''accept''"
| "stage_name S_recv = ''recv''"

text \<open>
  \<open>main\<close>, given the socket call that fails with its error code, or what has arrived when \<open>recv\<close> is
  called: the one call takes no more of it than the buffer holds.
\<close>

definition server_main :: "(server_stage \<times> int) + string \<Rightarrow> char option list \<Rightarrow> World \<Rightarrow> (int \<times> World) cpp" where
  "server_main net old w =
     (case net of
        Inl (stage, code) \<Rightarrow> Inr (1, print_err (stage_name stage) code w)
      | Inr arrived \<Rightarrow> bind_cpp (serve (take buffer_size arrived) old w) (\<lambda>(vm, w). Inr (0, w)))"

section \<open>The message\<close>

text \<open>What can be sent: 32 registers, a count that is an \<open>int\<close>, and a file name without white space or nulls.\<close>

definition sendable :: "VmMigr \<Rightarrow> string \<Rightarrow> bool" where
  "sendable vm filename \<longleftrightarrow>
     wf_class vm \<and> in_i32 (vpc vm) \<and> is_word filename \<and> NUL \<notin> set filename"

lemma registers_text:
  "length rs = 32 \<Longrightarrow>
   concat (map (\<lambda>i. show_int (sint (rs ! i)) @ '' '') [0..<32]) = concat (map (\<lambda>r. show_int (sint r) @ '' '') rs)"
  for rs :: "i32 list"
proof -
  assume l: "length rs = 32"
  have "concat (map (\<lambda>r. show_int (sint r) @ '' '') rs) =
      concat (map (\<lambda>r. show_int (sint r) @ '' '') (map (\<lambda>i. rs ! i) [0..<length rs]))"
    by (simp only: map_nth)
  then show ?thesis
    by (simp only: l map_map o_def)
qed

lemma not_NUL_show_int [simp]: "NUL \<notin> set (show_int k)"
  by (auto dest!: show_int_chars simp: is_digit_def)

lemma read_registers_text:
  "length rs' = length rs \<Longrightarrow> lead = [] \<or> lead = '' '' \<Longrightarrow>
   read_registers rs' (stream (lead @ concat (map (\<lambda>r. show_int (sint r) @ '' '') rs) @ rest)) =
     (rs, stream ((if rs = [] then lead else '' '') @ rest))"
proof (induction rs arbitrary: rs' lead)
  case (Cons r rs)
  obtain q qs where q: "rs' = q # qs" and qs: "length qs = length rs"
    using Cons.prems(1) by (cases rs') auto
  have "extract_i32 q (stream (lead @ show_int (sint r) @ '' '' @ concat (map (\<lambda>r. show_int (sint r) @ '' '') rs) @ rest)) =
      (r, stream ('' '' @ concat (map (\<lambda>r. show_int (sint r) @ '' '') rs) @ rest))"
    using Cons.prems(2) by auto
  then show ?case
    using Cons.IH [OF qs, of "'' ''"] by (simp add: q)
qed simp

text \<open>
  The server reads back what the client sent, whatever stands in the rest of its buffer; of a file
  name with white space in it only what is in front of the first white space.
\<close>

lemma parse_migration_text:
  assumes "sendable vm f" and "wf_class vm0" and "f2 = [] \<or> is_space (hd f2)"
  shows "parse_migration (c_str (migration_text vm (f @ f2)) @ behind) vm0 =
    (vm0\<lparr>registers := registers vm, vpc := vpc vm\<rparr>, f)"
proof -
  have rs: "length (registers vm) = 32" "length (registers vm0) = length (registers vm)"
    using assms by (simp_all add: sendable_def wf_class_def)
  have f: "is_word f" and pc: "in_i32 (vpc vm)" and nul: "NUL \<notin> set f"
    using assms(1) by (simp_all add: sendable_def)
  let ?regs = "concat (map (\<lambda>r. show_int (sint r) @ '' '') (registers vm))"
  define tl where "tl = takeWhile (\<lambda>c. c \<noteq> NUL) (f2 @ '' '') @ behind"
  have sp: "is_space c \<Longrightarrow> c \<noteq> NUL" for c
    by (auto simp: is_space_def)
  then have tl: "ends_word tl"
    using assms(3) by (cases f2) (auto simp: tl_def)
  have "c_str (migration_text vm (f @ f2)) @ behind = [] @ ?regs @ show_int (vpc vm) @ '' '' @ f @ tl"
  proof -
    have "migration_text vm (f @ f2) = (?regs @ show_int (vpc vm) @ '' '' @ f) @ (f2 @ '' '')"
      by (simp add: migration_text_def registers_text [OF rs(1)])
    moreover have "NUL \<notin> set (?regs @ show_int (vpc vm) @ '' '' @ f)"
      using nul by auto
    ultimately show ?thesis
      by (simp add: c_str_def takeWhile_append tl_def)
  qed
  moreover have "read_registers (registers vm0) (stream ([] @ ?regs @ show_int (vpc vm) @ '' '' @ f @ tl)) =
      (registers vm, stream ('' '' @ show_int (vpc vm) @ '' '' @ f @ tl))"
    using read_registers_text [OF rs(2), of "[]"] rs(1) by (auto simp del: append.simps)
  moreover have "extract_i32 old (stream ('' '' @ show_int (vpc vm) @ '' '' @ f @ tl)) =
      (word_of_int (vpc vm), stream ('' '' @ f @ tl))" for old
    using extract_i32_show [of "'' '' @ f @ tl" old "word_of_int (vpc vm)"] pc by simp
  moreover have "fst (extract_string [] (stream ('' '' @ f @ tl))) = f"
    using f tl by simp
  ultimately show ?thesis
    using pc by (simp add: parse_migration_def istringstream_def split_beta)
qed

text \<open>Where the reading of the buffer stops.\<close>

lemma c_read_terminated: "c_read (map Some s @ Some NUL # rest) = Inr (takeWhile (\<lambda>c. c \<noteq> NUL) s)"
  by (induction s) auto

lemma c_read_past:
  "NUL \<notin> set s \<Longrightarrow> c_read (map Some s) = Inl UB_Bounds"
  "NUL \<notin> set s \<Longrightarrow> c_read (map Some s @ None # rest) = Inl UB_Uninitialized"
  by (induction s) auto

lemma not_NUL_c_str: "NUL \<notin> set (c_str s)"
  by (auto simp: c_str_def dest: set_takeWhileD)

lemma received_migration:
  assumes "msg = c_str s" and "drop (length msg) old = map Some g @ Some NUL # rest"
  shows "\<exists>g'. received_text msg old = Inr (msg @ g')"
proof -
  have "received_text msg old = c_read (map Some (msg @ g) @ Some NUL # rest)"
    by (simp add: received_text_def assms(2))
  also have "\<dots> = Inr (msg @ takeWhile (\<lambda>c. c \<noteq> NUL) g)"
    using not_NUL_c_str [of s] unfolding c_read_terminated by (auto simp: assms(1) takeWhile_append)
  finally show ?thesis by blast
qed

lemma received_past:
  assumes "NUL \<notin> set msg" and "NUL \<notin> set g"
  shows "drop (length msg) old = map Some g \<Longrightarrow> received_text msg old = Inl UB_Bounds"
    and "drop (length msg) old = map Some g @ None # rest \<Longrightarrow> received_text msg old = Inl UB_Uninitialized"
  using c_read_past [of "msg @ g"] assms by (simp_all add: received_text_def)

section \<open>Where the server goes on\<close>

text \<open>
  An instruction line computes its results from the registers alone. So a relation between machines
  that is one between their registers is kept by every line, if writing the same results keeps it.
\<close>

locale register_relation =
  fixes related :: "'a VmClass_scheme \<Rightarrow> 'b VmClass_scheme \<Rightarrow> bool"
  assumes related_registers: "related x y \<Longrightarrow> registers y = registers x"
    and related_update: "related x y \<Longrightarrow> related (x\<lparr>registers := rs\<rparr>) (y\<lparr>registers := rs\<rparr>)"
    and related_results: "related x y \<Longrightarrow> related (x\<lparr>hi_reg := h, low_reg := l\<rparr>) (y\<lparr>hi_reg := h, low_reg := l\<rparr>)"
begin

abbreviation related_outcomes :: "'a VmClass_scheme cpp \<Rightarrow> 'b VmClass_scheme cpp \<Rightarrow> bool" where
  "related_outcomes \<equiv> rel_sum (=) related"

lemma related_ops:
  assumes "related x y"
  shows "related_outcomes (reg_reg f a b c x) (reg_reg f a b c y)"
    and "related_outcomes (reg_imm h a b x) (reg_imm h a b y)"
    and "related_outcomes (li a b x) (li a b y)"
    and "related_outcomes (mult a b x) (mult a b y)"
    and "related_outcomes (divi a b x) (divi a b y)"
proof -
  note r = related_registers [OF assms]
  have s: "related_outcomes (set_reg i v x) (set_reg i v y)" for i v
    using related_update [OF assms] by (simp add: set_reg_def r)
  have g: "reg_at i y = reg_at i x" for i
    by (simp add: reg_at_def r)
  have u: "z\<lparr>low_reg := l, hi_reg := h\<rparr> = z\<lparr>hi_reg := h, low_reg := l\<rparr>" for z :: "'z VmClass_scheme" and h l
    by (cases z) simp
  show "related_outcomes (reg_reg f a b c x) (reg_reg f a b c y)"
    by (simp add: reg_reg_def g rel_sum_bind_same s)
  show "related_outcomes (reg_imm h a b x) (reg_imm h a b y)"
    by (simp add: reg_imm_def g rel_sum_bind_same s)
  show "related_outcomes (li a b x) (li a b y)"
    by (simp add: li_def s)
  show "related_outcomes (mult a b x) (mult a b y)"
    using related_results [OF assms] by (simp add: mult_def g rel_sum_bind_same Let_def)
  show "related_outcomes (divi a b x) (divi a b y)"
    using related_results [OF assms] by (simp add: divi_def g rel_sum_bind_same u)
qed

lemma related_exec_op:
  assumes "related x y"
  shows "related_outcomes (exec_op opc d s1 s2 x) (exec_op opc d s1 s2 y)"
proof -
  have two: "related_outcomes (two_operands a b f) (two_operands a b g)"
    if "\<And>i j. related_outcomes (f i j) (g i j)" for a b f g
    using that by (simp add: two_operands_def rel_sum_bind_same)
  have one: "related_outcomes (one_operand a f) (one_operand a g)"
    if "\<And>i. related_outcomes (f i) (g i)" for a f g
    using that by (simp add: one_operand_def rel_sum_bind_same)
  note ops = related_ops [OF assms]
  show ?thesis
    unfolding exec_op_def Let_def add_def xorop_def sub_def addi_def addu_def subu_def addiu_def mul_def
      AND_reg_def OR_reg_def ANDI_def ORI_def SLL_def SRL_def
    by (simp add: assms two one ops)
qed

lemma related_exec_line:
  assumes "related x y"
  shows "related_outcomes (exec_line line x) (exec_line line y)"
  using related_exec_op [OF assms]
  by (cases "line_fields line") (simp add: exec_line_def rel_sum_bind_same)

end

text \<open>Machines with the same registers, and machines that are equal but for the count of lines.\<close>

definition same_registers :: "'a VmClass_scheme \<Rightarrow> 'b VmClass_scheme \<Rightarrow> bool" where
  "same_registers a b \<longleftrightarrow> registers a = registers b"

interpretation regs: register_relation same_registers
  by unfold_locales (simp_all add: same_registers_def)

definition recounted :: "int \<Rightarrow> VmMigr \<Rightarrow> VmMigr \<Rightarrow> bool" where
  "recounted k x y \<longleftrightarrow> y = x\<lparr>vpc := k\<rparr>"

interpretation count: register_relation "recounted k" for k
proof
  show "recounted k (x\<lparr>hi_reg := h, low_reg := l\<rparr>) (y\<lparr>hi_reg := h, low_reg := l\<rparr>)" if "recounted k x y" for x y h l
    using that by (cases x) (simp add: recounted_def)
  show "recounted k (x\<lparr>registers := rs\<rparr>) (y\<lparr>registers := rs\<rparr>)" if "recounted k x y" for x y rs
    using that by (cases x) (simp add: recounted_def)
qed (simp add: recounted_def)

section \<open>A migration from one end to the other\<close>

text \<open>What a line does to the machine of the client or the server, the host left aside.\<close>

definition migr_step :: "string \<Rightarrow> VmMigr \<Rightarrow> VmMigr cpp" where
  "migr_step line obj =
     (if line = [] \<or> fst (line_fields line) = ''DUMP_PROCESSOR_STATE'' then Inr obj
      else if fst (line_fields line) = ''SNAPSHOT''
      then (if length (split_blanks line) < 2 then Inl UB_Bounds else Inr obj)
      else exec_line line obj)"

lemma migr_solve_step:
  assumes "line \<noteq> []"
  shows "(case migr_step line obj of Inl e \<Rightarrow> migr_solve line obj w = Inl e
    | Inr obj' \<Rightarrow> \<exists>w'. migr_solve line obj w = Inr (obj', w'))"
  using assms
  by (cases "exec_line line obj") (auto simp: migr_solve_def migr_step_def write_snapshot_def Let_def)

lemma migr_step_processor: "migr_step line obj = Inr obj' \<Longrightarrow> only_processor obj obj'"
  using exec_line_processor by (auto simp: migr_step_def split: if_splits)

lemma migr_step_frame:
  assumes "migr_step line obj = Inr obj'"
  shows "vpc obj' = vpc obj" and "vm_binary obj' = vm_binary obj" and "wf_class obj' = wf_class obj"
proof -
  have p: "obj' = obj\<lparr>registers := registers obj', hi_reg := hi_reg obj', low_reg := low_reg obj'\<rparr>"
    and l: "length (registers obj') = length (registers obj)"
    using migr_step_processor [OF assms] by (simp_all add: only_processor_def)
  show "vpc obj' = vpc obj" by (subst p) simp
  show "vm_binary obj' = vm_binary obj" by (subst p) simp
  show "wf_class obj' = wf_class obj" by (simp add: wf_class_def l)
qed

lemma same_registers_step:
  assumes "same_registers x y"
  shows "rel_sum (=) same_registers (migr_step line x) (migr_step line y)"
  using assms regs.related_exec_line [OF assms] by (simp add: migr_step_def)

lemma recounted_step: "rel_sum (=) (recounted k) (migr_step line x) (migr_step line (x\<lparr>vpc := k\<rparr>))"
  using count.related_exec_line [of k x "x\<lparr>vpc := k\<rparr>" line] by (simp add: migr_step_def recounted_def)

lemma same_registers_lines:
  "same_registers x y \<Longrightarrow> rel_sum (=) same_registers (exec_lines migr_step ls x) (exec_lines migr_step ls y)"
  by (induction ls arbitrary: x y) (auto intro!: rel_sum_bind_cpp same_registers_step)

text \<open>The loop of the server is the execution of its lines, as far as the machine is concerned.\<close>

lemma server_loop_lines:
  "rel_sum (=) (\<lambda>a (b, w'). a = b) (exec_lines migr_step ls vm) (server_loop ls vm w)"
proof (induction ls arbitrary: vm w)
  case (Cons line ls)
  show ?case
  proof (cases "line = []")
    case True
    then show ?thesis
      using Cons.IH by (simp add: migr_step_def)
  next
    case False
    show ?thesis
      using migr_solve_step [OF False, of vm w] Cons.IH False
      by (cases "migr_step line vm") auto
  qed
qed simp

text \<open>The lines the client executes before it meets a \<open>MIGRATE\<close>, and the count it keeps of them.\<close>

abbreviation line_count :: "string list \<Rightarrow> nat" where
  "line_count ls \<equiv> length (filter (\<lambda>l. l \<noteq> []) ls)"

definition no_migration :: "string list \<Rightarrow> bool" where
  "no_migration ls \<longleftrightarrow> (\<forall>l \<in> set ls. fst (line_fields l) \<noteq> ''MIGRATE'')"

lemma line_fields_Nil: "fst (line_fields []) = []"
  by (simp add: line_fields_def istringstream_def Let_def split_beta getline_ended)

lemma client_solve_plain:
  assumes "l \<noteq> []" and "fst (line_fields l) \<noteq> ''MIGRATE''" and "in_i32 (vpc vm + 1)" and "same_registers u vm"
  shows "rel_sum (=) (\<lambda>a r. \<exists>vm' w'. r = Next vm' w' \<and> same_registers a vm' \<and> vpc vm' = vpc vm + 1 \<and>
      vm_binary vm' = vm_binary vm) (migr_step l u) (client_solve net l vm f w)"
proof -
  let ?vm = "vm\<lparr>vpc := vpc vm + 1\<rparr>"
  have c: "client_solve net l vm f w = client_rest l ?vm w"
    using assms(2,3) by (simp add: client_solve_def)
  have "same_registers u ?vm"
    using assms(4) by (simp add: same_registers_def)
  then have "rel_sum (=) same_registers (migr_step l u) (migr_step l ?vm)"
    by (rule same_registers_step)
  then show ?thesis
    using migr_solve_step [OF assms(1), of ?vm w] migr_step_frame(1,2) [of l ?vm] unfolding c
    by (cases "migr_step l ?vm") (fastforce simp: client_rest_def rel_sum.simps)+
qed

lemma client_loop_lines:
  assumes "exec_lines migr_step pre u = Inr u'" and "same_registers u vm" and "no_migration pre"
    and "- (2 ^ 31) \<le> vpc vm" and "vpc vm + int (line_count pre) < 2 ^ 31"
  shows "\<exists>vm' w'. client_loop net (pre @ rest) vm w = client_loop net rest vm' w' \<and> same_registers u' vm' \<and>
    vpc vm' = vpc vm + int (line_count pre) \<and> vm_binary vm' = vm_binary vm"
  using assms
proof (induction pre arbitrary: u vm w)
  case (Cons l pre)
  obtain u1 where u1: "migr_step l u = Inr u1" and r: "exec_lines migr_step pre u1 = Inr u'"
    using Cons.prems(1) by (auto simp: bind_cpp_eq_Inr)
  have nm: "no_migration pre" and opc: "fst (line_fields l) \<noteq> ''MIGRATE''"
    using Cons.prems(3) by (simp_all add: no_migration_def)
  show ?case
  proof (cases "l = []")
    case True
    then have "u1 = u" using u1 by (simp add: migr_step_def)
    then show ?thesis
      using Cons.IH [OF r _ nm, of vm w] Cons.prems True by simp
  next
    case False
    have "in_i32 (vpc vm + 1)"
      using Cons.prems(4,5) False by (simp add: in_i32_def)
    from client_solve_plain [OF False opc this Cons.prems(2), of net "vm_binary vm" w] u1
    obtain vm1 w1 where c: "client_solve net l vm (vm_binary vm) w = Inr (Next vm1 w1)"
      and v: "same_registers u1 vm1" "vpc vm1 = vpc vm + 1" "vm_binary vm1 = vm_binary vm"
      by (auto simp: rel_sum.simps)
    have "client_loop net ((l # pre) @ rest) vm w = client_loop net (pre @ rest) vm1 w1"
      using False c by simp
    then show ?thesis
      using Cons.IH [OF r v(1) nm, of w1] Cons.prems(4,5) False v(2,3) by (simp add: ac_simps)
  qed
qed auto

text \<open>
  When the message cannot be sent, the client reports the call that failed and goes on behind its
  \<open>MIGRATE\<close> line, with nothing but the count of lines changed.
\<close>

fun failed_call :: "net_outcome \<Rightarrow> (string \<times> int) option" where
  "failed_call (Startup_failed n) = Some (''WSAStartup'', n)"
| "failed_call (Socket_failed n) = Some (''socket'', n)"
| "failed_call (Connect_failed n) = Some (''connect'', n)"
| "failed_call (Send_failed n) = Some (''send'', n)"
| "failed_call (Sent n) = None"

definition connecting :: "VmMigr \<Rightarrow> string \<Rightarrow> World \<Rightarrow> World" where
  "connecting vm ip w = w\<lparr>cout := cout w @ ''Before Migration\<newline>'' @ dumpstate vm @
     ''Connecting to IP address: '' @ ip @ ''\<newline>''\<rparr>"

lemma client_solve_failed:
  assumes "fst (line_fields l) = ''MIGRATE''" and "find_ip l = Some ip" and "in_i32 (vpc vm + 1)"
    and "failed_call (net (connecting vm ip w) (c_str (migration_text (vm\<lparr>vpc := vpc vm + 1\<rparr>) f))) = Some (call, code)"
  shows "client_solve net l vm f w =
    Inr (Next (vm\<lparr>vpc := vpc vm + 1\<rparr>)
      ((connecting vm ip w)\<lparr>cerr := cerr w @ call @ '' failed: '' @ show_int code @ ''\<newline>''\<rparr>))"
proof -
  have d: "dumpstate (vm\<lparr>vpc := vpc vm + 1\<rparr>) = dumpstate vm"
    by (simp add: dumpstate_def register_lines_def)
  show ?thesis
    using assms
    by (cases "net (connecting vm ip w) (c_str (migration_text (vm\<lparr>vpc := vpc vm + 1\<rparr>) f))")
      (auto simp: client_solve_def client_migrate_def Let_def d connecting_def print_err_def)
qed

text \<open>Over a whole file the \<open>MIGRATE\<close> lines are lines that do nothing, and are counted.\<close>

lemma client_loop_failed:
  assumes "\<And>w msg. failed_call (net w msg) \<noteq> None"
    and "\<forall>l \<in> set ls. fst (line_fields l) = ''MIGRATE'' \<longrightarrow> find_ip l \<noteq> None"
    and "- (2 ^ 31) \<le> k" and "k + int (line_count ls) < 2 ^ 31"
  shows "rel_sum (=) (\<lambda>a r. \<exists>w'. r = Next (a\<lparr>vpc := k + int (line_count ls)\<rparr>) w')
    (exec_lines migr_step (filter (\<lambda>l. fst (line_fields l) \<noteq> ''MIGRATE'') ls) u) (client_loop net ls (u\<lparr>vpc := k\<rparr>) w)"
  using assms(2-4)
proof (induction ls arbitrary: u k w)
  case (Cons l ls)
  have rest: "\<forall>l \<in> set ls. fst (line_fields l) = ''MIGRATE'' \<longrightarrow> find_ip l \<noteq> None"
    using Cons.prems(1) by simp
  show ?case
  proof (cases "l = []")
    case True
    then show ?thesis
      using Cons.IH [OF rest Cons.prems(2), of u w] Cons.prems(3) by (simp add: migr_step_def line_fields_Nil)
  next
    case False
    then have i: "in_i32 (k + 1)" and b: "- (2 ^ 31) \<le> k + 1" "k + 1 + int (line_count ls) < 2 ^ 31"
      and n: "k + int (line_count (l # ls)) = k + 1 + int (line_count ls)"
      using Cons.prems(2,3) by (simp_all add: in_i32_def)
    let ?vm = "u\<lparr>vpc := k\<rparr>"
    show ?thesis
    proof (cases "fst (line_fields l) = ''MIGRATE''")
      case True
      obtain ip where ip: "find_ip l = Some ip"
        using Cons.prems(1) True by auto
      let ?msg = "c_str (migration_text (?vm\<lparr>vpc := vpc ?vm + 1\<rparr>) (vm_binary ?vm))"
      obtain call code where "failed_call (net (connecting ?vm ip w) ?msg) = Some (call, code)"
        using assms(1) by fastforce
      from client_solve_failed [where net = net and vm = ?vm and w = w and f = "vm_binary ?vm", OF True ip _ this] i
      obtain w1 where "client_solve net l ?vm (vm_binary ?vm) w = Inr (Next (u\<lparr>vpc := k + 1\<rparr>) w1)"
        by auto
      then show ?thesis
        using Cons.IH [OF rest b, of u w1] False True unfolding n by simp
    next
      case opc: False
      have c: "client_solve net l ?vm (vm_binary ?vm) w = client_rest l (u\<lparr>vpc := k + 1\<rparr>) w"
        using opc i by (simp add: client_solve_def)
      show ?thesis
      proof (cases "migr_step l u")
        case (Inl e)
        then have "migr_step l (u\<lparr>vpc := k + 1\<rparr>) = Inl e"
          using recounted_step [of "k + 1" l u] by (auto simp: rel_sum.simps)
        then have "client_rest l (u\<lparr>vpc := k + 1\<rparr>) w = Inl e"
          using migr_solve_step [OF False, of "u\<lparr>vpc := k + 1\<rparr>" w] by (simp add: client_rest_def)
        then show ?thesis
          using False opc Inl c by simp
      next
        case (Inr u1)
        then have "migr_step l (u\<lparr>vpc := k + 1\<rparr>) = Inr (u1\<lparr>vpc := k + 1\<rparr>)"
          using recounted_step [of "k + 1" l u] by (auto simp: rel_sum.simps recounted_def)
        then obtain w1 where "client_rest l (u\<lparr>vpc := k + 1\<rparr>) w = Inr (Next (u1\<lparr>vpc := k + 1\<rparr>) w1)"
          using migr_solve_step [OF False, of "u\<lparr>vpc := k + 1\<rparr>" w] by (auto simp: client_rest_def)
        then show ?thesis
          using Cons.IH [OF rest b, of u1 w1] False opc Inr c unfolding n by simp
      qed
    qed
  qed
qed auto

text \<open>A message is never longer than its file name by more than 397 characters.\<close>

lemma length_show_nat: "n < 10 ^ Suc k \<Longrightarrow> length (show_nat n) \<le> Suc k"
proof (induction k arbitrary: n)
  case 0
  then show ?case by (subst show_nat.simps) simp
next
  case (Suc k)
  show ?case
  proof (cases "n < 10")
    case True
    then show ?thesis by (subst show_nat.simps) simp
  next
    case False
    moreover have "n div 10 < 10 ^ Suc k"
      using Suc.prems by (simp add: less_mult_imp_div_less)
    ultimately show ?thesis
      using Suc.IH [of "n div 10"] by (subst show_nat.simps) simp
  qed
qed

lemma length_show_int:
  assumes "in_i32 k"
  shows "length (show_int k) \<le> 11"
proof -
  have "length (show_nat (nat \<bar>k\<bar>)) \<le> Suc 9"
    using assms by (intro length_show_nat) (auto simp: in_i32_def)
  then show ?thesis
    by (auto simp: show_int_def abs_if split: if_splits)
qed

lemma length_migration_text:
  assumes "sendable vm f"
  shows "length (migration_text vm f) \<le> length f + 397"
proof -
  have "length (show_int (sint r) @ '' '') \<le> 12" for r :: i32
    using length_show_int [of "sint r"] by simp
  then have "length (concat (map (\<lambda>r :: i32. show_int (sint r) @ '' '') rs)) \<le> 12 * length rs" for rs
    by (induction rs) (simp_all add: add_mono)
  from this [of "registers vm"] show ?thesis
    using assms length_show_int [of "vpc vm"]
    by (simp add: sendable_def wf_class_def migration_text_def registers_text)
qed

text \<open>
  Client and server together. The client executes the lines before the \<open>MIGRATE\<close> line and counts the
  ones that are not empty; the server passes over as many lines of its copy, empty or not, and one
  more for the \<open>MIGRATE\<close> line, and executes the rest with the registers it was sent.
\<close>

abbreviation all_sent :: "World \<Rightarrow> string \<Rightarrow> net_outcome" where
  "all_sent \<equiv> \<lambda>w msg. Sent (length msg)"

lemma client_sends:
  assumes "exec_lines migr_step pre vm = Inr vm1" and "wf_class vm" and "vpc vm = 0"
    and "no_migration pre" and "int (line_count pre) < 2 ^ 31 - 1"
    and "is_word (vm_binary vm)" and "NUL \<notin> set (vm_binary vm)"
    and "fst (line_fields m) = ''MIGRATE''" and "find_ip m = Some ip"
  shows "\<exists>vm2 w2. client_loop all_sent (pre @ m # post) vm w =
      Inr (Migrated (c_str (migration_text vm2 (vm_binary vm))) w2) \<and>
    same_registers vm1 vm2 \<and> vpc vm2 = int (line_count pre) + 1 \<and> sendable vm2 (vm_binary vm)"
proof -
  have m: "m \<noteq> []"
    using assms(8) by (auto simp: line_fields_Nil)
  obtain vm' w' where l: "client_loop all_sent (pre @ m # post) vm w = client_loop all_sent (m # post) vm' w'"
    and v: "same_registers vm1 vm'" "vpc vm' = int (line_count pre)" "vm_binary vm' = vm_binary vm"
  proof -
    have "same_registers vm vm" by (simp add: same_registers_def)
    from client_loop_lines [OF assms(1) this assms(4), of all_sent "m # post" w] that show ?thesis
      using assms(3,5) by (auto simp del: client_loop.simps)
  qed
  have i: "in_i32 (int (line_count pre) + 1)"
    using assms(5) by (simp add: in_i32_def)
  let ?vm = "vm'\<lparr>vpc := vpc vm' + 1\<rparr>"
  have "wf_class vm1"
    using assms(1,2)
  proof (induction pre arbitrary: vm)
    case (Cons l pre)
    then show ?case by (auto simp: bind_cpp_eq_Inr migr_step_frame(3))
  qed simp
  then have "sendable ?vm (vm_binary vm)"
    using assms(6,7) v i by (simp add: sendable_def wf_class_def same_registers_def)
  moreover have "same_registers vm1 ?vm"
    using v(1) by (simp add: same_registers_def)
  moreover have "\<exists>w2. client_loop all_sent (m # post) vm' w' =
      Inr (Migrated (c_str (migration_text ?vm (vm_binary vm))) w2)"
    using i m assms(8,9) v by (simp add: client_solve_def client_migrate_def Let_def)
  ultimately show ?thesis
    using l v(2) by (intro exI [of _ ?vm]) auto
qed

lemma length_c_str: "length (c_str s) \<le> length s"
  unfolding c_str_def by (rule length_takeWhile_le)

lemma message_fits:
  "sendable vm f \<Longrightarrow> length f \<le> 600 \<Longrightarrow> length (c_str (migration_text vm f)) \<le> 997"
  using length_migration_text [of vm f] length_c_str [of "migration_text vm f"] by linarith

text \<open>What the server does with the text that it has read: the lines of the file, and a character written behind the message.\<close>

lemma serve_received:
  assumes "received_text msg old = Inr text" and "parse_migration text (VmMigr_init []) = (vm, f)"
  shows "rel_sum (=) (\<lambda>a (b, w'). a = b)
    (bind_cpp (exec_lines migr_step (drop (nat (vpc vm)) (read_lines (open_input (''input_files_hw3/'' @ f) w))) vm)
      (\<lambda>u. if length msg < buffer_size then Inr u else Inl UB_Bounds))
    (serve msg old w)"
proof -
  let ?path = "''input_files_hw3/'' @ f"
  let ?ls = "drop (nat (vpc vm)) (read_lines (open_input ?path w))"
  define w1 where "w1 = report_open ?path (w\<lparr>cout := cout w @ print_received vm\<rparr>)"
  have o: "open_input ?path (w\<lparr>cout := cout w @ print_received vm\<rparr>) = open_input ?path w"
    by (simp add: open_input_def)
  have "serve msg old w = bind_cpp (server_loop ?ls vm w1)
      (\<lambda>(vm, w). if length msg < buffer_size then Inr (vm, w) else Inl UB_Bounds)"
    using assms o by (simp add: serve_def Let_def w1_def read_lines_skip)
  then show ?thesis
    using server_loop_lines [of ?ls vm w1]
    by (cases "server_loop ?ls vm w1") (auto simp: rel_sum.simps)
qed

lemma serve_lines:
  assumes "sendable vm f" and "0 \<le> vpc vm" and "length f \<le> 600" and "msg = c_str (migration_text vm f)"
    and "drop (length msg) old = map Some g @ Some NUL # rest" and "same_registers vm1 vm"
  shows "rel_sum (=) (\<lambda>a (b, w'). same_registers a b)
    (exec_lines migr_step (drop (nat (vpc vm)) (read_lines (open_input (''input_files_hw3/'' @ f) w))) vm1)
    (serve msg old w)"
proof -
  let ?vm = "(VmMigr_init [])\<lparr>registers := registers vm, vpc := vpc vm\<rparr>"
  let ?ls = "drop (nat (vpc vm)) (read_lines (open_input (''input_files_hw3/'' @ f) w))"
  have len: "length msg < buffer_size"
    using message_fits [OF assms(1,3)] by (simp add: assms(4) buffer_size_def)
  have wf: "wf_class (VmMigr_init [])"
    by (simp add: wf_class_def VmMigr_init_def VmNamed_init_def VmClass_init_def VmNamed.defs VmClass.defs)
  obtain g' where g': "received_text msg old = Inr (msg @ g')"
    using received_migration [OF assms(4,5)] by blast
  moreover have "parse_migration (msg @ g') (VmMigr_init []) = (?vm, f)"
    using parse_migration_text [OF assms(1) wf, of "[]" g'] by (simp add: assms(4))
  ultimately have "rel_sum (=) (\<lambda>a (b, w'). a = b) (bind_cpp (exec_lines migr_step ?ls ?vm) Inr) (serve msg old w)"
    using serve_received [of msg old "msg @ g'" ?vm f w] len by simp
  moreover have "same_registers vm1 ?vm"
    using assms(6) by (simp add: same_registers_def)
  then have "rel_sum (=) same_registers (exec_lines migr_step ?ls vm1) (exec_lines migr_step ?ls ?vm)"
    by (rule same_registers_lines)
  ultimately show ?thesis
    by (cases "exec_lines migr_step ?ls ?vm") (auto simp: rel_sum.simps)
qed

lemma serve_unread: "received_text msg old = Inl e \<Longrightarrow> serve msg old w = Inl e"
  by (simp add: serve_def)

lemma server_main_returns:
  "length msg \<le> buffer_size \<Longrightarrow>
   (\<exists>w'. server_main (Inr msg) old w = Inr (0, w')) \<longleftrightarrow> returns (serve msg old w)"
  by (cases "serve msg old w") (auto simp: server_main_def)

text \<open>The machine that the client has set up counts from 0.\<close>

lemma client_set_up:
  assumes "hw1_machine opts i a (VmMigr_init nm) w = Inr (vm, w')"
  shows "wf_class vm" and "vpc vm = 0"
proof -
  have e: "same_extension (VmMigr_init nm) vm"
    by (rule hw1_machine_extension [OF assms])
  then show "wf_class vm"
    by (simp add: same_extension_def wf_class_def VmMigr_init_def VmNamed_init_def VmClass_init_def VmNamed.defs VmClass.defs)
  show "vpc vm = 0"
    using e by (cases vm) (simp add: same_extension_def VmMigr_init_def VmNamed_init_def VmClass_init_def
        VmNamed.defs VmClass.defs)
qed

lemma client_main_run:
  assumes "parse_options evs w = (opts, w0)" and "assembly_Files opts = a # fs"
    and "hw1_machine opts 0 a (VmMigr_init ''vm1'') w0 = Inr (vm, w1)"
  shows "client_main net evs w =
    bind_cpp (client_loop net (read_lines (open_input (''input_files_hw3/'' @ vm_binary vm) w1)) vm
        (report_open (''input_files_hw3/'' @ vm_binary vm) w1))
      (\<lambda>r. Inr (case r of Next vm w \<Rightarrow> (0, None, w) | Migrated msg w \<Rightarrow> (0, Some msg, w)))"
  using assms by (simp add: client_main_def at_def Let_def)

end
