(* ===== verification/Legacy_Semantics.thy ===== *)
theory Legacy_Semantics
  imports Turn_Order Legacy_Migration
begin

text \<open>
  The text of the single-file programs as an instruction set: a reference interpreter over the
  integers, which knows neither text nor words, and a static check of the register operands. The
  lines that a list of instructions is written as compute what the interpreter says, aborts included.
\<close>

section \<open>The reference interpreter\<close>

text \<open>Instructions: a mnemonic with three registers, or with two registers and a number, and the rest.\<close>

datatype asm =
    Asm_reg string int int int
  | Asm_imm string int int int
  | Asm_li int int
  | Asm_mult int int
  | Asm_div int int
  | Asm_dump

fun render_asm :: "asm \<Rightarrow> string" where
  "render_asm (Asm_reg opc d a b) = line3 opc (reg_operand d) (reg_operand a) (reg_operand b)"
| "render_asm (Asm_imm opc d a k) = line3 opc (reg_operand d) (reg_operand a) (imm_operand k)"
| "render_asm (Asm_li d k) = line2 ''li'' (reg_operand d) (imm_operand k)"
| "render_asm (Asm_mult a b) = line2 ''mult'' (reg_operand a) (reg_operand b)"
| "render_asm (Asm_div a b) = line2 ''div'' (reg_operand a) (reg_operand b)"
| "render_asm Asm_dump = ''DUMP_PROCESSOR_STATE''"

text \<open>A machine of integers, with results that are exact or reduced to 32 bits with a sign.\<close>

record ref_machine =
  reg_values :: "int list"
  hi_value :: int
  low_value :: int

definition exact :: "int \<Rightarrow> int cpp" where
  "exact x = (if in_i32 x then Inr x else Inl UB_Overflow)"

definition wrap :: "int \<Rightarrow> int" where
  "wrap x = (x + 2 ^ 31) mod 2 ^ 32 - 2 ^ 31"

definition shift_by :: "(int \<Rightarrow> int) \<Rightarrow> int \<Rightarrow> int cpp" where
  "shift_by f k = (if 0 \<le> k \<and> k < 32 then Inr (wrap (f (2 ^ nat k))) else Inl UB_Shift)"

definition reg_alu :: "(string \<times> (int \<Rightarrow> int \<Rightarrow> int cpp)) list" where
  "reg_alu =
     [(''add'', \<lambda>x y. exact (x + y)), (''addu'', \<lambda>x y. Inr (wrap (x + y))), (''sub'', \<lambda>x y. exact (x - y)),
      (''subu'', \<lambda>x y. Inr (wrap (x - y))), (''mul'', \<lambda>x y. exact (x * y)), (''xor'', \<lambda>x y. Inr (x XOR y)),
      (''and'', \<lambda>x y. Inr (x AND y)), (''or'', \<lambda>x y. Inr (x OR y))]"

definition imm_alu :: "(string \<times> (int \<Rightarrow> int \<Rightarrow> int cpp)) list" where
  "imm_alu =
     [(''addi'', \<lambda>x k. exact (x + k)), (''addiu'', \<lambda>x k. Inr (wrap (x + k))), (''andi'', \<lambda>x k. Inr (x AND k)),
      (''or'', \<lambda>x k. Inr (x OR k)), (''sll'', \<lambda>x k. shift_by (\<lambda>p. x * p) k), (''srl'', \<lambda>x k. shift_by (\<lambda>p. x div p) k)]"

definition get_value :: "int \<Rightarrow> ref_machine \<Rightarrow> int cpp" where
  "get_value i m = (if 0 \<le> i \<and> i < int (length (reg_values m)) then Inr (reg_values m ! nat i) else Inl UB_Bounds)"

definition put_value :: "int \<Rightarrow> int \<Rightarrow> ref_machine \<Rightarrow> ref_machine cpp" where
  "put_value i x m =
     (if 0 \<le> i \<and> i < int (length (reg_values m)) then Inr (m\<lparr>reg_values := (reg_values m)[nat i := x]\<rparr>)
      else Inl UB_Bounds)"

text \<open>An unknown mnemonic does nothing.\<close>

fun ref_step :: "asm \<Rightarrow> ref_machine \<Rightarrow> ref_machine cpp" where
  "ref_step (Asm_reg opc d a b) m =
     (case map_of reg_alu opc of
        None \<Rightarrow> Inr m
      | Some f \<Rightarrow> bind_cpp (get_value a m) (\<lambda>x. bind_cpp (get_value b m) (\<lambda>y.
                  bind_cpp (f x y) (\<lambda>z. put_value d z m))))"
| "ref_step (Asm_imm opc d a k) m =
     (case map_of imm_alu opc of
        None \<Rightarrow> Inr m
      | Some f \<Rightarrow> bind_cpp (get_value a m) (\<lambda>x. bind_cpp (f x k) (\<lambda>z. put_value d z m)))"
| "ref_step (Asm_li d k) m = put_value d k m"
| "ref_step (Asm_mult a b) m =
     bind_cpp (get_value a m) (\<lambda>x. bind_cpp (get_value b m) (\<lambda>y.
       Inr (m\<lparr>hi_value := (x * y) div 2 ^ 32, low_value := wrap (x * y)\<rparr>)))"
| "ref_step (Asm_div a b) m =
     bind_cpp (get_value b m) (\<lambda>y.
       if y = 0 then Inl (Exit 1)
       else bind_cpp (get_value a m) (\<lambda>x.
            let q = sgn x * sgn y * (\<bar>x\<bar> div \<bar>y\<bar>)
            in bind_cpp (exact q) (\<lambda>q. Inr (m\<lparr>low_value := q, hi_value := x - q * y\<rparr>))))"
| "ref_step Asm_dump m = Inr m"

fun ref_run :: "asm list \<Rightarrow> ref_machine \<Rightarrow> ref_machine cpp" where
  "ref_run [] m = Inr m"
| "ref_run (i # is) m = bind_cpp (ref_step i m) (ref_run is)"

text \<open>The instructions the programs know, with operands that are \<open>int\<close>s.\<close>

fun asm_ok :: "asm \<Rightarrow> bool" where
  "asm_ok (Asm_reg opc d a b) \<longleftrightarrow> opc \<in> fst ` set reg_alu \<and> in_i32 d \<and> in_i32 a \<and> in_i32 b"
| "asm_ok (Asm_imm opc d a k) \<longleftrightarrow> opc \<in> fst ` set imm_alu \<and> in_i32 d \<and> in_i32 a \<and> in_i32 k"
| "asm_ok (Asm_li d k) \<longleftrightarrow> in_i32 d \<and> in_i32 k"
| "asm_ok (Asm_mult a b) \<longleftrightarrow> in_i32 a \<and> in_i32 b"
| "asm_ok (Asm_div a b) \<longleftrightarrow> in_i32 a \<and> in_i32 b"
| "asm_ok Asm_dump \<longleftrightarrow> True"

section \<open>Words and integers\<close>

definition ref_of :: "'a VmClass_scheme \<Rightarrow> ref_machine" where
  "ref_of obj = \<lparr>reg_values = map sint (registers obj), hi_value = sint (hi_reg obj), low_value = sint (low_reg obj)\<rparr>"

lemma sint_wrap: "sint (word_of_int x :: i32) = wrap x"
  by (simp add: int_word_sint wrap_def)

lemma wrap_id [simp]: "in_i32 x \<Longrightarrow> wrap x = x"
  using sint_wrap [of x] by simp

lemma in_i32_wrap [simp]: "in_i32 (wrap x)"
  using in_i32_sint [of "word_of_int x"] by (simp add: sint_wrap del: in_i32_sint)

lemma get_value_ref: "get_value i (ref_of obj) = map_sum id sint (reg_at i obj)"
  by (auto simp: get_value_def ref_of_def reg_at_def nat_less_iff)

lemma put_value_ref: "put_value i (sint v) (ref_of obj) = map_sum id ref_of (set_reg i v obj)"
  by (auto simp: put_value_def ref_of_def set_reg_def nat_less_iff map_update)

lemma map_sum_bind:
  assumes "\<And>x. k' (g x) = map_sum id f (k x)" and "r' = map_sum id g r"
  shows "map_sum id f (bind_cpp r k) = bind_cpp r' k'"
  using assms by (cases r) auto

lemma exact_ref: "exact x = map_sum id sint (i32_of x)"
  by (simp add: exact_def i32_of_def)

lemma ref_reg_reg:
  assumes "\<And>x y. g (sint x) (sint y) = map_sum id sint (f x y)"
  shows "map_sum id ref_of (reg_reg f d a b obj) =
    bind_cpp (get_value a (ref_of obj)) (\<lambda>x. bind_cpp (get_value b (ref_of obj)) (\<lambda>y.
      bind_cpp (g x y) (\<lambda>z. put_value d z (ref_of obj))))"
  unfolding reg_reg_def
  by (intro map_sum_bind [where g = sint] map_sum_bind [where g = sint, symmetric] get_value_ref put_value_ref assms)

lemma ref_reg_imm:
  assumes "\<And>x. g (sint x) = map_sum id sint (f x)"
  shows "map_sum id ref_of (reg_imm f d a obj) =
    bind_cpp (get_value a (ref_of obj)) (\<lambda>x. bind_cpp (g x) (\<lambda>z. put_value d z (ref_of obj)))"
  unfolding reg_imm_def
  by (intro map_sum_bind [where g = sint] map_sum_bind [where g = sint, symmetric] get_value_ref put_value_ref assms)

text \<open>The operations with \<open>uint32_t\<close> operands: a negative register number is outside the file as well.\<close>

lemma unsigned_index:
  assumes "in_i32 i" and "length (registers obj) = 32"
  shows "reg_at (uint (word_of_int i :: u32)) obj = reg_at i obj"
    and "set_reg (uint (word_of_int i :: u32)) v obj = set_reg i v obj"
proof -
  have "uint (word_of_int i :: u32) = (if i < 0 then i + 2 ^ 32 else i)"
  proof (cases "i < 0")
    case True
    then have "(i + 2 ^ 32) mod 2 ^ 32 = i + 2 ^ 32"
      using assms(1) by (intro mod_pos_pos_trivial) (simp_all add: in_i32_def)
    then show ?thesis
      using True by (simp add: uint_word_of_int)
  next
    case False
    then show ?thesis
      using assms(1) by (simp add: uint_word_of_int in_i32_def)
  qed
  then show "reg_at (uint (word_of_int i :: u32)) obj = reg_at i obj"
    and "set_reg (uint (word_of_int i :: u32)) v obj = set_reg i v obj"
    using assms by (auto simp: reg_at_def set_reg_def in_i32_def nat_less_iff)
qed

lemma unsigned_forms:
  assumes "in_i32 d" and "in_i32 a" and "in_i32 b" and "length (registers obj) = 32"
  shows "reg_reg f (uint (word_of_int d :: u32)) (uint (word_of_int a :: u32)) (uint (word_of_int b :: u32)) obj = reg_reg f d a b obj"
    and "reg_imm h (uint (word_of_int d :: u32)) (uint (word_of_int a :: u32)) obj = reg_imm h d a obj"
  using assms by (simp_all add: reg_reg_def reg_imm_def unsigned_index)

lemma sint_bitwise:
  "sint (x AND y) = sint x AND sint y" "sint (x OR y) = sint x OR sint y" "sint (x XOR y) = sint x XOR sint y"
  for x y :: i32
  by (fact signed_and_eq signed_or_eq signed_xor_eq)+

lemma shift_amount:
  assumes "in_i32 k"
  shows "(word_of_int k :: u32) < 32 \<longleftrightarrow> 0 \<le> k \<and> k < 32"
    and "0 \<le> k \<Longrightarrow> k < 32 \<Longrightarrow> unat (word_of_int k :: u32) = nat k"
proof -
  have n: "uint (word_of_int k :: u32) = k mod 2 ^ 32"
    by (simp add: uint_word_of_int)
  have "k mod 2 ^ 32 = (if k < 0 then k + 2 ^ 32 else k)"
  proof (cases "k < 0")
    case True
    then have "(k + 2 ^ 32) mod 2 ^ 32 = k + 2 ^ 32"
      using assms by (intro mod_pos_pos_trivial) (simp_all add: in_i32_def)
    then show ?thesis using True by simp
  next
    case False
    then show ?thesis using assms by (simp add: in_i32_def)
  qed
  with n show "(word_of_int k :: u32) < 32 \<longleftrightarrow> 0 \<le> k \<and> k < 32"
    using assms by (auto simp: word_less_def in_i32_def)
  show "unat (word_of_int k :: u32) = nat k" if "0 \<le> k" "k < 32"
    using that n by (simp add: unat_eq_nat_uint)
qed

lemma sint_arith:
  "sint (x + y) = wrap (sint x + sint y)" "sint (x - y) = wrap (sint x - sint y)"
  "sint (push_bit n x) = wrap (sint x * 2 ^ n)"
  "sint (signed_drop_bit n x) = wrap (sint x div 2 ^ n)"
  for x y :: i32
proof -
  have "x + y = word_of_int (sint x + sint y)" "x - y = word_of_int (sint x - sint y)"
    "push_bit n x = word_of_int (sint x * 2 ^ n)"
    by (simp_all add: push_bit_eq_mult)
  then show "sint (x + y) = wrap (sint x + sint y)" "sint (x - y) = wrap (sint x - sint y)"
    "sint (push_bit n x) = wrap (sint x * 2 ^ n)"
    by (simp_all only: sint_wrap)
  have "in_i32 (sint x div 2 ^ n)"
    using in_i32_sint [of "signed_drop_bit n x"] by (simp only: sint_signed_drop_bit)
  then show "sint (signed_drop_bit n x) = wrap (sint x div 2 ^ n)"
    by (simp add: sint_signed_drop_bit)
qed

lemma alu_ref:
  "exact (sint x + sint y) = map_sum id sint (add32 x y)" "exact (sint x - sint y) = map_sum id sint (sub32 x y)"
  "exact (sint x * sint y) = map_sum id sint (bind_cpp (mul32 x y) (\<lambda>r. Inr (r AND 0xFFFFFFFF)))"
  for x y :: i32
proof -
  have "bind_cpp (i32_of z) (\<lambda>r. Inr (r AND 0xFFFFFFFF)) = i32_of z" for z
    by (cases "i32_of z") simp_all
  then show "exact (sint x + sint y) = map_sum id sint (add32 x y)"
    "exact (sint x - sint y) = map_sum id sint (sub32 x y)"
    "exact (sint x * sint y) = map_sum id sint (bind_cpp (mul32 x y) (\<lambda>r. Inr (r AND 0xFFFFFFFF)))"
    by (simp_all only: add32_def sub32_def mul32_def exact_ref)
qed

section \<open>One instruction\<close>

lemma reg_form_ref:
  assumes "map_of reg_alu opc = Some g" and "in_i32 d" and "in_i32 a" and "in_i32 b" and "wf_class obj"
    and "(opc, f) \<in> set register_forms"
  shows "map_sum id ref_of (f d a b obj) =
    bind_cpp (get_value a (ref_of obj)) (\<lambda>x. bind_cpp (get_value b (ref_of obj)) (\<lambda>y.
      bind_cpp (g x y) (\<lambda>z. put_value d z (ref_of obj))))"
proof -
  have l: "length (registers obj) = 32"
    using assms(5) by (simp add: wf_class_def)
  note unfold = add_def addu_def sub_def subu_def mul_def xorop_def unsigned3_def AND_reg_def OR_reg_def
    unsigned_forms(1) [OF assms(2-4) l]
  show ?thesis
    using assms(6,1) unfolding register_forms_def set_simps insert_iff empty_iff prod.inject
    by (elim disjE conjE FalseE; hypsubst; unfold unfold; intro ref_reg_reg;
        auto simp: reg_alu_def alu_ref sint_arith sint_bitwise)
qed

lemma imm_form_ref:
  assumes "map_of imm_alu opc = Some g" and "in_i32 d" and "in_i32 a" and "in_i32 k" and "wf_class obj"
    and "(opc, f) \<in> set immediate_forms"
  shows "map_sum id ref_of (f d a k obj) =
    bind_cpp (get_value a (ref_of obj)) (\<lambda>x. bind_cpp (g x k) (\<lambda>z. put_value d z (ref_of obj)))"
proof -
  have l: "length (registers obj) = 32"
    using assms(5) by (simp add: wf_class_def)
  note unfold = addi_def addiu_def unsigned3_def ANDI_def ORI_def SLL_def SRL_def
    unsigned_forms(2) [OF assms(2,3) assms(4) l]
  show ?thesis
    using assms(6,1) unfolding immediate_forms_def set_simps insert_iff empty_iff prod.inject
    by (elim disjE conjE FalseE; hypsubst; unfold unfold; intro ref_reg_imm;
        auto simp: imm_alu_def alu_ref sint_arith sint_bitwise assms(4) add32_def exact_ref shift_by_def shift_amount)
qed

lemma li_ref: "in_i32 k \<Longrightarrow> map_sum id ref_of (li d k obj) = put_value d k (ref_of obj)"
  using put_value_ref [of d "word_of_int k" obj] by (simp add: li_def)

lemma mult_ref: "map_sum id ref_of (mult a b obj) = ref_step (Asm_mult a b) (ref_of obj)"
proof -
  have "sint (ucast (signed_drop_bit 32 r) :: i32) = sint r div 2 ^ 32 \<and>
      sint (ucast (r AND 0xFFFFFFFF) :: i32) = wrap (sint r)" for r :: "64 word"
  proof -
    have "r AND 0xFFFFFFFF = take_bit 32 r"
      by (simp add: take_bit_eq_mask mask_eq_exp_minus_1)
    then have w: "(ucast (r AND 0xFFFFFFFF) :: i32) = word_of_int (sint r)"
      by (intro bit_word_eqI) (auto simp: bit_simps)
    then have low: "sint (ucast (r AND 0xFFFFFFFF) :: i32) = wrap (sint r)"
      by (simp only: sint_wrap)
    have "uint (ucast (r AND 0xFFFFFFFF) :: i32) = sint r mod 2 ^ 32"
      by (simp only: w uint_word_of_int len_bit0 len_num1) simp
    then have "sint (ucast (signed_drop_bit 32 r) :: i32) = sint r div 2 ^ 32"
      using high_low_words [of r] div_mult_mod_eq [of "sint r" "2 ^ 32"] by simp
    with low show ?thesis by simp
  qed
  then show ?thesis
    unfolding mult_def ref_step.simps
    by (intro map_sum_bind [where g = sint] map_sum_bind [where g = sint, symmetric] get_value_ref)
      (simp add: Let_def ref_of_def sint_product)
qed

lemma div_values:
  fixes x y :: i32
  assumes "y \<noteq> 0"
  shows "exact (sgn (sint x) * sgn (sint y) * (\<bar>sint x\<bar> div \<bar>sint y\<bar>)) = map_sum id sint (div32 x y)"
    and "sint x - sgn (sint x) * sgn (sint y) * (\<bar>sint x\<bar> div \<bar>sint y\<bar>) * sint y =
      sint (word_of_int (sint x smod sint y) :: i32)"
proof -
  have q: "sgn (sint x) * sgn (sint y) * (\<bar>sint x\<bar> div \<bar>sint y\<bar>) = sint x sdiv sint y"
    by (simp add: signed_divide_int_def)
  then show "exact (sgn (sint x) * sgn (sint y) * (\<bar>sint x\<bar> div \<bar>sint y\<bar>)) = map_sum id sint (div32 x y)"
    by (simp add: div32_def exact_def i32_of_def)
  have "sint y \<noteq> 0"
    using assms by (simp add: signed_eq_0_iff)
  then have "\<bar>sint x smod sint y\<bar> < \<bar>sint y\<bar>"
    using smod_int_range [of "sint y" "sint x"] by auto
  moreover have "\<bar>sint y\<bar> \<le> 2 ^ 31"
    using in_i32_sint [of y] by (auto simp: in_i32_def abs_le_iff)
  ultimately have "in_i32 (sint x smod sint y)"
    unfolding in_i32_def by linarith
  then have "sint (word_of_int (sint x smod sint y) :: i32) = sint x smod sint y"
    by simp
  then show "sint x - sgn (sint x) * sgn (sint y) * (\<bar>sint x\<bar> div \<bar>sint y\<bar>) * sint y =
      sint (word_of_int (sint x smod sint y) :: i32)"
    unfolding q using sdiv_mult_smod_eq [of "sint x" "sint y"] by linarith
qed

lemma div_ref: "map_sum id ref_of (divi a b obj) = ref_step (Asm_div a b) (ref_of obj)"
proof -
  have "map_sum id ref_of (bind_cpp (div32 x y) (\<lambda>q. bind_cpp (rem32 x y) (\<lambda>r. Inr (obj\<lparr>low_reg := q, hi_reg := r\<rparr>)))) =
      (let q = sgn (sint x) * sgn (sint y) * (\<bar>sint x\<bar> div \<bar>sint y\<bar>)
       in bind_cpp (exact q) (\<lambda>q. Inr ((ref_of obj)\<lparr>low_value := q, hi_value := sint x - q * sint y\<rparr>)))"
    if "y \<noteq> 0" for x y
  proof (cases "div32 x y")
    case (Inl e)
    then show ?thesis by (simp add: Let_def div_values(1) [OF that])
  next
    case (Inr q)
    then have q: "sint q = sgn (sint x) * sgn (sint y) * (\<bar>sint x\<bar> div \<bar>sint y\<bar>)"
      using sint_div32 [of x y q] by (simp only: signed_divide_int_def)
    have "sint x - sint q * sint y = sint (word_of_int (sint x smod sint y) :: i32)"
      unfolding q by (rule div_values(2) [OF that])
    with Inr show ?thesis
      by (simp add: Let_def div_values(1) [OF that] rem32_def) (simp add: ref_of_def)
  qed
  note quotient = this
  have z: "sint y = 0 \<longleftrightarrow> y = 0" for y :: i32
    by (simp add: signed_eq_0_iff)
  have "map_sum id ref_of (bind_cpp (reg_at a obj) (\<lambda>x. bind_cpp (div32 x y)
        (\<lambda>q. bind_cpp (rem32 x y) (\<lambda>r. Inr (obj\<lparr>low_reg := q, hi_reg := r\<rparr>))))) =
      bind_cpp (get_value a (ref_of obj)) (\<lambda>x.
        let q = sgn x * sgn (sint y) * (\<bar>x\<bar> div \<bar>sint y\<bar>)
        in bind_cpp (exact q) (\<lambda>q. Inr ((ref_of obj)\<lparr>low_value := q, hi_value := x - q * sint y\<rparr>)))"
    if "y \<noteq> 0" for y
    by (rule map_sum_bind [where g = sint, OF _ get_value_ref]) (rule quotient [OF that, symmetric])
  then show ?thesis
    unfolding divi_def ref_step.simps
    by (intro map_sum_bind [where g = sint] get_value_ref) (simp add: z)
qed

section \<open>The lines of a program\<close>

lemma known_mnemonics:
  "map_of reg_alu opc = Some g \<Longrightarrow> \<exists>f. (opc, f) \<in> set register_forms"
  "map_of imm_alu opc = Some g \<Longrightarrow> \<exists>f. (opc, f) \<in> set immediate_forms"
  by (auto simp: reg_alu_def imm_alu_def register_forms_def immediate_forms_def split: if_splits)

lemma known_map_of: "opc \<in> fst ` set table \<Longrightarrow> \<exists>g. map_of table opc = Some g"
  by (cases "map_of table opc") (auto simp: map_of_eq_None_iff)

lemma exec_line_ref:
  assumes "asm_ok i" and "i \<noteq> Asm_dump" and "wf_class obj"
  shows "map_sum id ref_of (exec_line (render_asm i) obj) = ref_step i (ref_of obj)"
proof (cases i)
  case (Asm_reg opc d a b)
  then have ok: "opc \<in> fst ` set reg_alu" "in_i32 d" "in_i32 a" "in_i32 b"
    using assms(1) by simp_all
  obtain g where g: "map_of reg_alu opc = Some g"
    using known_map_of [OF ok(1)] by blast
  from known_mnemonics(1) [OF g]
  obtain f :: "int \<Rightarrow> int \<Rightarrow> int \<Rightarrow> 'a VmClass_scheme \<Rightarrow> 'a VmClass_scheme cpp"
    where f: "(opc, f) \<in> set register_forms" ..
  show ?thesis
    using exec_register_form [OF f ok(2-4)] reg_form_ref [OF g ok(2-4) assms(3) f] by (simp add: Asm_reg g)
next
  case (Asm_imm opc d a k)
  then have ok: "opc \<in> fst ` set imm_alu" "in_i32 d" "in_i32 a" "in_i32 k"
    using assms(1) by simp_all
  obtain g where g: "map_of imm_alu opc = Some g"
    using known_map_of [OF ok(1)] by blast
  from known_mnemonics(2) [OF g]
  obtain f :: "int \<Rightarrow> int \<Rightarrow> int \<Rightarrow> 'a VmClass_scheme \<Rightarrow> 'a VmClass_scheme cpp"
    where f: "(opc, f) \<in> set immediate_forms" ..
  show ?thesis
    using exec_immediate_form [OF f ok(2-4)] imm_form_ref [OF g ok(2-4) assms(3) f] by (simp add: Asm_imm g)
next
  case (Asm_li d k)
  then show ?thesis
    using assms(1) exec_two_operand_forms(3) [of d k obj] by (simp add: li_ref)
next
  case (Asm_mult a b)
  then show ?thesis
    using assms(1) exec_two_operand_forms(1) [of a b obj] mult_ref [of a b obj] by simp
next
  case (Asm_div a b)
  then show ?thesis
    using assms(1) exec_two_operand_forms(2) [of a b obj] div_ref [of a b obj]
    by (simp del: ref_step.simps)
qed (use assms in simp)

lemma opcode_of_operands:
  "CHR '' '' \<notin> set opc \<Longrightarrow> opc \<notin> special \<Longrightarrow>
   fst (line_fields (opc @ reg_operand d @ rest)) \<notin> special \<and> opc @ reg_operand d @ rest \<noteq> []"
  using fst_line_fields [of opc "CHR ''$'' # show_int d @ rest"] by (simp add: reg_operand_def)

lemma opcode_of_render:
  assumes "asm_ok i" and "i \<noteq> Asm_dump"
  shows "fst (line_fields (render_asm i)) \<notin> {''DUMP_PROCESSOR_STATE'', ''SNAPSHOT'', ''MIGRATE''} \<and> render_asm i \<noteq> []"
proof (cases i)
  case (Asm_reg opc d a b)
  then show ?thesis
    using assms(1) unfolding Asm_reg render_asm.simps line3_def
    by (intro opcode_of_operands) (auto simp: reg_alu_def)
next
  case (Asm_imm opc d a k)
  then show ?thesis
    using assms(1) unfolding Asm_imm render_asm.simps line3_def
    by (intro opcode_of_operands) (auto simp: imm_alu_def)
next
  case (Asm_li d k)
  show ?thesis
    unfolding Asm_li render_asm.simps line2_def by (rule opcode_of_operands) simp_all
next
  case (Asm_mult a b)
  show ?thesis
    unfolding Asm_mult render_asm.simps line2_def by (rule opcode_of_operands) simp_all
next
  case (Asm_div a b)
  show ?thesis
    unfolding Asm_div render_asm.simps line2_def by (rule opcode_of_operands) simp_all
qed (use assms(2) in simp)

text \<open>What the programs share: a dump leaves the machine alone, and the other lines are executed.\<close>

locale text_machine =
  fixes step :: "string \<Rightarrow> 'a VmClass_scheme \<Rightarrow> 'a VmClass_scheme cpp"
  assumes step_dump: "fst (line_fields l) = ''DUMP_PROCESSOR_STATE'' \<Longrightarrow> step l obj = Inr obj"
    and step_exec: "l \<noteq> [] \<Longrightarrow> fst (line_fields l) \<notin> {''DUMP_PROCESSOR_STATE'', ''SNAPSHOT''} \<Longrightarrow>
      step l obj = exec_line l obj"
begin

lemma step_ref:
  assumes "asm_ok i" and "wf_class obj"
  shows "map_sum id ref_of (step (render_asm i) obj) = ref_step i (ref_of obj)"
    and "step (render_asm i) obj = Inr obj' \<Longrightarrow> wf_class obj'"
proof -
  have "map_sum id ref_of (step (render_asm i) obj) = ref_step i (ref_of obj) \<and>
      (step (render_asm i) obj = Inr obj' \<longrightarrow> wf_class obj')"
  proof (cases "i = Asm_dump")
    case True
    have "fst (line_fields ''DUMP_PROCESSOR_STATE'') = ''DUMP_PROCESSOR_STATE''"
      by code_simp
    then show ?thesis
      using True assms(2) by (auto simp: step_dump)
  next
    case False
    then have "step (render_asm i) obj = exec_line (render_asm i) obj"
      using opcode_of_render [OF assms(1) False] by (auto intro!: step_exec)
    then show ?thesis
      using exec_line_ref [OF assms(1) False assms(2)] wf_class_line [OF assms(2)] by simp
  qed
  then show "map_sum id ref_of (step (render_asm i) obj) = ref_step i (ref_of obj)"
    and "step (render_asm i) obj = Inr obj' \<Longrightarrow> wf_class obj'" by simp_all
qed

lemma program_ref:
  "list_all asm_ok p \<Longrightarrow> wf_class obj \<Longrightarrow>
   map_sum id ref_of (exec_lines step (map render_asm p) obj) = ref_run p (ref_of obj)"
proof (induction p arbitrary: obj)
  case (Cons i p)
  have i: "asm_ok i" and p: "list_all asm_ok p"
    using Cons.prems(1) by simp_all
  show ?case
    using step_ref(1) [OF i Cons.prems(2)] Cons.IH [OF p step_ref(2) [OF i Cons.prems(2)]]
    by (cases "step (render_asm i) obj") (simp_all flip: step_ref(1) [OF i Cons.prems(2)])
qed simp

end

interpretation project_text: text_machine project_step
proof
  show "project_step l obj = Inr obj" if "fst (line_fields l) = ''DUMP_PROCESSOR_STATE''" for l obj
    using that by (simp add: project_step_def)
  show "project_step l obj = exec_line l obj"
    if "fst (line_fields l) \<notin> {''DUMP_PROCESSOR_STATE'', ''SNAPSHOT''}" for l obj
    using that by (simp add: project_step_def)
qed

interpretation hw1_text: text_machine hw1_step
  by unfold_locales (simp_all add: hw1_step_def)

interpretation migr_text: text_machine migr_step
  by unfold_locales (simp_all add: migr_step_def)

section \<open>The static check\<close>

text \<open>Registers from 0 to 31, and shifts by less than 32.\<close>

definition is_register :: "int \<Rightarrow> bool" where
  "is_register r \<longleftrightarrow> 0 \<le> r \<and> r < 32"

fun typed :: "asm \<Rightarrow> bool" where
  "typed (Asm_reg opc d a b) \<longleftrightarrow> is_register d \<and> is_register a \<and> is_register b"
| "typed (Asm_imm opc d a k) \<longleftrightarrow> is_register d \<and> is_register a \<and> (opc \<in> {''sll'', ''srl''} \<longrightarrow> 0 \<le> k \<and> k < 32)"
| "typed (Asm_li d k) \<longleftrightarrow> is_register d"
| "typed (Asm_mult a b) \<longleftrightarrow> is_register a \<and> is_register b"
| "typed (Asm_div a b) \<longleftrightarrow> is_register a \<and> is_register b"
| "typed Asm_dump \<longleftrightarrow> True"

lemma get_put_register:
  assumes "length (reg_values m) = 32"
  shows "get_value i m = (if is_register i then Inr (reg_values m ! nat i) else Inl UB_Bounds)"
    and "put_value i x m = (if is_register i then Inr (m\<lparr>reg_values := (reg_values m)[nat i := x]\<rparr>) else Inl UB_Bounds)"
  using assms by (simp_all add: get_value_def put_value_def is_register_def)

lemma reg_alu_aborts: "map_of reg_alu opc = Some g \<Longrightarrow> g x y = Inl e \<Longrightarrow> e = UB_Overflow"
  by (auto simp: reg_alu_def exact_def split: if_splits)

lemma imm_alu_aborts:
  "map_of imm_alu opc = Some g \<Longrightarrow> g x k = Inl e \<Longrightarrow> e = UB_Overflow \<or> opc \<in> {''sll'', ''srl''} \<and> \<not> (0 \<le> k \<and> k < 32)"
  "map_of imm_alu opc = Some g \<Longrightarrow> g x k = Inr y \<Longrightarrow> opc \<in> {''sll'', ''srl''} \<Longrightarrow> 0 \<le> k \<and> k < 32"
  by (auto simp: imm_alu_def exact_def shift_by_def split: if_splits)

lemma ref_step_typed:
  assumes "asm_ok i" and "length (reg_values m) = 32"
  shows "ref_step i m = Inr m' \<Longrightarrow> typed i \<and> length (reg_values m') = 32"
    and "ref_step i m = Inl e \<Longrightarrow> typed i \<Longrightarrow> e \<in> {UB_Overflow, Exit 1}"
proof -
  note reg = get_put_register [OF assms(2)]
  show "typed i \<and> length (reg_values m') = 32" if "ref_step i m = Inr m'"
    using that assms known_map_of
    by (cases i) (fastforce simp: reg outcome_simps Let_def dest: imm_alu_aborts(2) split: if_splits)+
  show "e \<in> {UB_Overflow, Exit 1}" if "ref_step i m = Inl e" and "typed i"
    using that assms(1) known_map_of
    by (cases i) (fastforce simp: reg outcome_simps Let_def exact_def dest: reg_alu_aborts imm_alu_aborts(1) split: if_splits)+
qed

lemma ref_run_typed:
  assumes "list_all asm_ok p" and "length (reg_values m) = 32"
  shows "ref_run p m = Inr m' \<Longrightarrow> list_all typed p"
    and "ref_run p m = Inl e \<Longrightarrow> list_all typed p \<Longrightarrow> e \<in> {UB_Overflow, Exit 1}"
proof -
  have "(ref_run p m = Inr m' \<longrightarrow> list_all typed p) \<and>
    (ref_run p m = Inl e \<longrightarrow> list_all typed p \<longrightarrow> e \<in> {UB_Overflow, Exit 1})"
    using assms
  proof (induction p arbitrary: m)
    case (Cons i p)
    then have i: "asm_ok i" and p: "list_all asm_ok p"
      by simp_all
    note step = ref_step_typed [OF i Cons.prems(2)]
    show ?case
    proof (cases "ref_step i m")
      case (Inl e')
      then show ?thesis using step(2) by auto
    next
      case (Inr n)
      then show ?thesis
        using step(1) [OF Inr] Cons.IH [OF p, of n] by simp
    qed
  qed simp
  then show "ref_run p m = Inr m' \<Longrightarrow> list_all typed p"
    and "ref_run p m = Inl e \<Longrightarrow> list_all typed p \<Longrightarrow> e \<in> {UB_Overflow, Exit 1}" by simp_all
qed

text \<open>What that means for the lines of a program, and for two machines that run in turns.\<close>

context text_machine begin

lemma program_typed:
  assumes "list_all asm_ok p" and "wf_class obj"
  shows "exec_lines step (map render_asm p) obj = Inr u \<Longrightarrow> list_all typed p"
    and "exec_lines step (map render_asm p) obj = Inl e \<Longrightarrow> list_all typed p \<Longrightarrow> e \<in> {UB_Overflow, Exit 1}"
proof -
  have l: "length (reg_values (ref_of obj)) = 32"
    using assms(2) by (simp add: ref_of_def wf_class_def)
  note run = program_ref [OF assms]
  show "exec_lines step (map render_asm p) obj = Inr u \<Longrightarrow> list_all typed p"
    using ref_run_typed(1) [OF assms(1) l, of "ref_of u"] run by simp
  show "exec_lines step (map render_asm p) obj = Inl e \<Longrightarrow> list_all typed p \<Longrightarrow> e \<in> {UB_Overflow, Exit 1}"
    using ref_run_typed(2) [OF assms(1) l, of e] run by simp
qed

end

context line_machine begin

lemma exec_on_lines: "map_sum id fst (exec_on solve ls vm w) = exec_lines step ls vm"
proof (induction ls arbitrary: vm w)
  case (Cons l ls)
  show ?case
  proof (cases "solve l vm w")
    case (Inl e)
    then show ?thesis
      using solve_step [of l vm w] by (cases "step l vm") simp_all
  next
    case (Inr x)
    then obtain vm1 w1 where "solve l vm w = Inr (vm1, w1)" by (cases x) auto
    then show ?thesis
      using solve_Inr Cons.IH by simp
  qed
qed simp

end

lemma map_sum_fst: "map_sum id (f \<circ> fst) r = map_sum id f (map_sum id fst r)"
  by (cases r) simp_all

lemma server_loop_value: "map_sum id fst (server_loop ls vm w) = exec_lines migr_step ls vm"
  using server_loop_lines [of ls vm w] by (cases "server_loop ls vm w") (auto simp: rel_sum.simps)

text \<open>What a line of \<open>homework1.cc\<close> leaves alone.\<close>

definition same_set_up :: "VmNamed \<Rightarrow> VmNamed \<Rightarrow> bool" where
  "same_set_up a b \<longleftrightarrow> wf_class b \<and> vname b = vname a \<and>
     vm_exec_slice_in_instructions b = vm_exec_slice_in_instructions a \<and> vm_binary b = vm_binary a"

lemma exec_lines_set_up:
  assumes "exec_lines hw1_step ls a = Inr b" and "wf_class a"
  shows "same_set_up a b"
proof -
  have "only_processor a b"
    by (rule exec_lines_processor [OF assms(1)]) (rule hw1_step_processor)
  then show ?thesis
    using assms(2) by (cases a; cases b) (simp add: only_processor_iff wf_class_def same_set_up_def)
qed

end
