(* ===== verification/Spec2Isabelle.thy ===== *)
theory Spec2Isabelle
  imports Run_Progress Snapshot_Service Legacy_Semantics
begin

text \<open>
  A virtual machine monitor for MIPS-like guests, in two generations. The modular one (\<open>include/\<close>,
  \<open>src/\<close>) runs guests with paged memory under a scheduler and moves them over a transport with
  checksummed packets. The older one is four programs of one file each (\<open>project.cc\<close>,
  \<open>homework1.cc\<close>, \<open>homework-2 and 3-client.cc\<close>, \<open>homework-2 and 3- server.cc\<close>) in which machines
  execute lines of text in turns, save their registers, and migrate between two processes.

  \<^bold>\<open>Foundations.\<close> \<open>VMM_Prelude\<close> has the result type: a call returns (\<open>Inr\<close>) or ends in an \<open>abort\<close>,
  which is an undefined behaviour by kind, an uncaught exception or \<open>exit\<close>. \<open>Cpp_Int\<close> has \<open>int\<close> and
  \<open>uint32_t\<close> as words and the byte layout of objects, \<open>Cpp_Iostream\<close> the string streams, \<open>stoi\<close>,
  \<open>getline\<close> and the printing of numbers, \<open>Host\<close> what the program sees of its host (output, files, a
  steady clock).

  \<^bold>\<open>The modular monitor\<close>, each theory named after the directory it models:
  \<^item> \<open>VMM_Types\<close>: the structs of \<open>common/types.hpp\<close>, with their default values;
  \<^item> \<open>Instructions\<close>: \<open>cpu/instruction\<close>, the parser of assembly text (\<open>ParseProgram\<close>);
  \<^item> \<open>Virtual_Memory\<close>: \<open>memory/virtual_memory\<close>, translation with its cache and word access; the
    locale \<open>word_memory\<close> is what a loaded word owes to the stores before it;
  \<^item> \<open>Virtual_Machine\<close>, \<open>Guest_Execution\<close>: \<open>vm/virtual_machine\<close>, one instruction, a slice, snapshots;
    then the reference semantics of a guest run alone (\<open>run_to_end\<close>, \<open>final_vm\<close>);
  \<^item> \<open>Schedulers\<close>: \<open>scheduler/\<close>, the three policies; the locales \<open>scheduler\<close> and \<open>fair_scheduler\<close> are
    the contract the hypervisor relies on, interpreted for each policy and in \<open>Main_Program\<close> for the
    dynamic dispatch;
  \<^item> \<open>Metrics\<close>, \<open>State_Serializer\<close>, \<open>Migration\<close>, \<open>Snapshot_Service\<close>: the counters, the packet with its
    FNV-1a checksum, the retry protocol with the pre-copy service (locale \<open>lossy_transport\<close>), the
    snapshot files;
  \<^item> \<open>Hypervisor\<close>, \<open>Hypervisor_Runs\<close>: \<open>hypervisor/hypervisor_core\<close>. \<open>Run_round\<close> is one iteration of the
    loop of \<open>Run\<close>, and \<open>Run\<close> a partial function, so that a run that never returns is \<open>None\<close>. The
    change of one machine in a round is the relation \<open>vm_step\<close>, over which the invariants go;
  \<^item> \<open>Guest_Output\<close>, \<open>Priority_Runs\<close>: the console of a run as an interleaving of what each guest
    writes alone (\<open>outcome\<close>, \<open>said\<close>), and which machines the priority scheduler leaves alone;
  \<^item> \<open>Run_Account\<close>: the guests that come to an end (\<open>finishes\<close>), and the account of a run that returns: no migration
    has taken place, and the metrics count what the program counters have passed;
  \<^item> \<open>Run_Progress\<close>: when the loop returns and after how many rounds, how many rounds in
    a row a fair scheduler can pass over a guest (\<open>overlooks\<close>), a guest that cannot go on, and what a
    round sends, by whether its slice reaches a \<open>MIGRATE\<close> (\<open>reaches_migrate\<close>);
  \<^item> \<open>Main_Program\<close>: \<open>main.cpp\<close>.

  \<^bold>\<open>The single-file programs.\<close>
  \<^item> \<open>Legacy_Machine\<close>: \<open>VmClass\<close>, its seventeen operations and the decoding of a line, which the four
    files repeat word for word; what the other files add to the class are record extensions;
  \<^item> \<open>Legacy_Loop\<close>: configuration files and the loop over two machines, a partial function over the
    program's \<open>solve\<close>; the locale \<open>line_machine\<close> is what it needs of \<open>solve\<close>;
  \<^item> \<open>Legacy_Programs\<close>: \<open>project.cc\<close> and \<open>homework1.cc\<close> up to \<open>main\<close>, snapshots in text files, options;
  \<^item> \<open>Turn_Order\<close>: the order in which the loop executes the lines of the two files (\<open>turn_order\<close>), and
    the whole program as the execution of that order (\<open>exec_order\<close>);
  \<^item> \<open>Ip_Pattern\<close>, \<open>Legacy_Migration\<close>: the client and the server, the regular expression for addresses
    against the texts it describes, the message between the two, and both together. \<open>migr_step\<close> is
    what a line does to the machine when the host is left aside; the locale \<open>register_relation\<close> says
    which relations between machines every line keeps;
  \<^item> \<open>Legacy_Semantics\<close>: instructions as data (\<open>asm\<close>), the lines they are written as (\<open>render_asm\<close>), a
    reference interpreter over the integers (\<open>ref_run\<close>) that these lines agree with in every
    program (locale \<open>text_machine\<close>), and a static check of the operands (\<open>typed\<close>).

  \<^bold>\<open>What is shown.\<close> For the guests: the result of every guest, and what it
  writes, is that of its program run alone, whatever the scheduler and the slices do, which decide
  the order of the lines on the console only; priorities above the floor of \<open>-1000000\<close>
  are strict and the two other policies starve no guest; with slices that are not empty the loop of
  \<open>Run\<close> returns exactly when every guest comes to an end alone, after no more rounds
  than there are instructions left and guests to run; the older loop executes the lines of its two
  files in one fixed order; \<open>main\<close> prints what it should to the character; the loops
  end exactly under the stated conditions, and some of the conditions are shown to be needed by runs
  that never end. For data: round trips of packets, snapshot files, messages and program text; the
  translation cache is invisible; the programs of text compute what their instructions mean over the
  integers, or abort. For migration: the retry protocol, what survives a move and what is lost; a run
  of the modular monitor in which a guest migrates never returns normally.

  \<^bold>\<open>Bounds.\<close> No definition uses fuel. Loops over data are structural or end by a measure (the
  characters left in a stream, the remaining instructions of a slice); the two scheduling loops are
  partial functions, and that they return is a theorem.

  \<^bold>\<open>What the migration between client and server assumes.\<close> The code checks none of the following, and
  the theorem on the whole way (\<open>migration_resumes\<close>) has them as hypotheses: \<open>send\<close> accepts the whole
  message (\<open>net_outcome\<close> also has partial sends, after which the client exits all the same); the one
  \<open>recv\<close> delivers it in one piece, which a TCP connection does not promise (\<open>server_main\<close> takes what
  has arrived); behind the message the buffer, which is not initialised, holds values with a null
  character among them (its characters are options, \<open>None\<close> without a value); the file name has no
  white space and no null, and at most 600 characters, so that the message is shorter than the buffer.

  \<^bold>\<open>Not modelled\<close>: the tests and the build files; the Winsock calls and \<open>getopt\<close>, whose outcomes are
  arguments; write errors of a file that could be opened, exhaustion of memory; what is printed before an
  abort, since an abort carries no host (as for the division by zero, whose message on \<open>std::cerr\<close> is lost); the iteration order
  of hash maps, which is a parameter; a file that changes while it is read. The operations of
  \<open>VmClass\<close> are the same text in all four single-file programs up to white space and comments: they
  are translated once, and the copies have no definitions of their own.
\<close>

section \<open>Inputs for the witnesses\<close>

text \<open>A small guest and a service on the local transport, at which the properties are applied.\<close>

definition tiny_config :: VmConfig where
  "tiny_config = VmConfig_init\<lparr>name := ''g'', configMemoryBytes := 8\<rparr>"

definition tiny_code :: "Instruction list" where
  "tiny_code =
     [Instruction_init\<lparr>opcode := Li, rd := 1, imm := 7\<rparr>, Instruction_init\<lparr>opcode := Sw, rs := 1\<rparr>,
      Instruction_init\<lparr>opcode := Lw, rd := 2\<rparr>, Instruction_init\<lparr>opcode := Halt\<rparr>]"

definition tiny :: VirtualMachine where
  "tiny = VirtualMachine_new tiny_config tiny_code"

definition local_service :: "unit MigrationService" where
  "local_service = \<lparr>transport = LocalTransport, transport_state = (), service_metrics = MetricsTracer_init\<rparr>"

text \<open>A hypervisor with a single machine.\<close>

definition lone :: "VirtualMachine \<Rightarrow> (IScheduler, unit) HypervisorCore" where
  "lone vm = AddVm vm (HypervisorCore_new IScheduler_PickNext (BuildScheduler ''mlfq'') local_service)"

lemma vms_lone [simp]: "vms (lone vm) = [vm]"
  by (simp add: lone_def AddVm_def HypervisorCore_new_def)

text \<open>A hypervisor with two machines, the first of greater priority.\<close>

definition urgent :: VirtualMachine where
  "urgent = VirtualMachine_new (tiny_config\<lparr>execSlice := 1, priority := 5\<rparr>) tiny_code"

definition duo :: "string \<Rightarrow> (IScheduler, unit) HypervisorCore" where
  "duo nm = AddVm tiny (AddVm urgent (HypervisorCore_new IScheduler_PickNext (BuildScheduler nm) local_service))"

lemma duo_fields [simp]:
  "vms (duo nm) = [urgent, tiny]" "PickNext (duo nm) = IScheduler_PickNext" "sched (duo nm) = BuildScheduler nm"
  "priority (config tiny) = 1" "priority (config urgent) = 5" "status tiny = Ready" "status urgent = Ready"
  by (simp_all add: duo_def AddVm_def HypervisorCore_new_def tiny_def urgent_def tiny_config_def VmConfig_init_def)

lemma urgent_slice:
  "\<exists>vm1. RunForSlice (execSlice (config urgent)) urgent [] = Inr (1, vm1, []) \<and> status vm1 = Ready \<and>
     pendingMigrationTarget vm1 = None"
  by (simp add: RunForSlice_def urgent_def tiny_code_def tiny_config_def VirtualMachine_new_def run_loop_step
      ExecuteOne_def VmConfig_init_def CpuState_init_def Instruction_init_def set_Reg_def valid_reg_def retire_def
      run_loop_stop settle_def)

lemma duo_round:
  "\<exists>h' w'. Run_round (duo nm) World_init = Inr (Some (h', w')) \<and> fst (pick_of (duo nm)) = 0 \<and>
     status (vms h' ! 0) = Ready \<and> vms h' ! 1 = tiny"
proof -
  have "fst (IScheduler_PickNext (BuildScheduler nm) [Ready, Ready] [5, 1]) = 0"
    by (simp add: BuildScheduler_def Priority_PickNext_def priority_step_def RoundRobin_PickNext_def runnable_def
        Mlfq_PickNext_def MlfqScheduler_init_def RebuildQueues_def eval_nat_numeral)
  then have p: "fst (pick_of (duo nm)) = 0"
    by (simp add: statuses_def priorities_def)
  have "cout World_init = []"
    by (simp add: World_init_def)
  then show ?thesis
    using urgent_slice p by (auto simp: Run_round_def Let_def split_beta dispatch_def allDone_def)
qed

lemma tiny_ok: "ok_vm tiny"
  by (simp add: tiny_def ok_vm_new tiny_code_def)

lemma tiny_slice: "\<exists>vm1. RunForSlice 1 tiny [] = Inr (1, vm1, []) \<and> status vm1 = Ready"
  by (simp add: RunForSlice_def tiny_def tiny_code_def tiny_config_def VirtualMachine_new_def run_loop_step
      ExecuteOne_def VmConfig_init_def CpuState_init_def Instruction_init_def set_Reg_def valid_reg_def retire_def
      run_loop_stop settle_def)

text \<open>A machine whose first instruction is a \<open>MIGRATE\<close>.\<close>

definition leaving :: VirtualMachine where
  "leaving = VirtualMachine_new tiny_config [Instruction_init\<lparr>opcode := Migrate, label := ''peer''\<rparr>]"

lemma leaving_facts:
  "rested leaving" "parked leaving" "abort_free leaving" "execSlice (config leaving) = 50" "status leaving = Ready"
  by (simp_all add: leaving_def rested_new parked_def abort_free_def safe_regs_def is_arith_def is_done_def
      Instruction_init_def tiny_config_def VmConfig_init_def)

lemma leaving_step: "vm_step leaving vm' \<Longrightarrow> status vm' = Blocked"
proof (induction leaving vm' rule: vm_step.induct)
  case (slice out k vm' out')
  then show ?case
    using RunForSlice_parked [OF leaving_facts(2), of 50 out] leaving_facts(4) by auto
next
  case (migrate out k vm1 out1 target vm2 out2)
  then have "vm1 = leaving\<lparr>pendingMigrationTarget := Some (target_of leaving), status := Blocked\<rparr>"
    using RunForSlice_parked [OF leaving_facts(2), of 50 out] leaving_facts(4) by simp
  then show ?case
    using migrate(3) precopy_waiting [of vm1 2 out1] leaving_facts(2) by (simp add: parked_def is_done_def)
qed

lemma lone_fields [simp]:
  "PickNext (lone vm) = IScheduler_PickNext" "sched (lone vm) = BuildScheduler ''mlfq''"
  "migrationService (lone vm) = local_service"
  by (simp_all add: lone_def AddVm_def HypervisorCore_new_def)

lemma leaving_round:
  "\<exists>h' w'. Run_round (lone leaving) World_init = Inr (Some (h', w')) \<and> status (vms h' ! 0) = Blocked \<and>
     fst (pick_of (lone leaving)) = 0 \<and> live (statuses (lone leaving)) 0"
proof -
  let ?h = "lone leaving"
  have l: "live (statuses ?h) 0"
    by (simp add: live_statuses is_done_def leaving_facts)
  have "list_all sound_guest (vms ?h)"
    by (simp add: sound_guest_def leaving_facts)
  then obtain o' where o: "Run_round ?h World_init = Inr o'"
    using Run_round_returns [of ?h World_init] by (auto simp: returns_iff)
  have "Run_round ?h World_init \<noteq> Inr None"
    by (rule stuck_not_done [of 0]) (simp_all add: parked_stuck leaving_facts)
  then obtain h' w' where r: "Run_round ?h World_init = Inr (Some (h', w'))"
    using o by (cases o') auto
  have "live (statuses ?h) (fst (pick_of ?h))"
    by (rule fair.round_contract(3) [OF r lone_fields(1)]) (simp only: lone_fields fair_start list.inject char.inject simp_thms)
  then have p: "fst (pick_of ?h) = 0"
    by (simp add: live_statuses)
  then obtain vm' where "vm_step leaving vm'" and "vms h' = [vm']"
    using Run_round_vms(3) [OF r] l by auto
  then show ?thesis
    using leaving_step r l p by (intro exI [of _ h'] exI [of _ w']) simp
qed

text \<open>Files for the single-file programs: two configurations and their instruction files.\<close>

definition legacy_text :: string where
  "legacy_text = ''li $1, 7\<newline>add $2, $1, $1\<newline>''"

definition blank_text :: string where
  "blank_text = ''li $1, 7\<newline>\<newline>add $2, $1, $1\<newline>''"

definition legacy_world :: World where
  "legacy_world = World_init\<lparr>files :=
     [''input_files/a'' \<mapsto> ''vm_exec_slice_in_instructions=1\<newline>vm_binary=p\<newline>'',
      ''input_files/b'' \<mapsto> ''vm_exec_slice_in_instructions=1\<newline>vm_binary=gone\<newline>'',
      ''input_files/c'' \<mapsto> ''vm_exec_slice_in_instructions=1\<newline>vm_binary=q\<newline>'',
      ''input_files/p'' \<mapsto> legacy_text, ''input_files/q'' \<mapsto> blank_text]\<rparr>"

definition legacy_class :: "string \<Rightarrow> VmClass" where
  "legacy_class bin = VmClass_init\<lparr>vm_exec_slice_in_instructions := Some 1, vm_binary := bin\<rparr>"

definition two_regs :: "i32 \<Rightarrow> i32 \<Rightarrow> VmClass" where
  "two_regs a b = VmClass_init\<lparr>registers := (registers VmClass_init)[1 := a, 2 := b]\<rparr>"

definition legacy_named :: "string \<Rightarrow> VmNamed" where
  "legacy_named nm = (VmNamed_init nm)\<lparr>vm_exec_slice_in_instructions := Some 1\<rparr>"

lemma legacy_config:
  "config_lines (read_lines (istringstream ''vm_exec_slice_in_instructions=1\<newline>vm_binary=p\<newline>'')) VmClass_init =
     Inr (legacy_class ''p'')"
  "config_lines (read_lines (istringstream ''vm_exec_slice_in_instructions=1\<newline>vm_binary=gone\<newline>'')) VmClass_init =
     Inr (legacy_class ''gone'')"
  "config_lines (read_lines (istringstream ''vm_exec_slice_in_instructions=1\<newline>vm_binary=q\<newline>'')) VmClass_init =
     Inr (legacy_class ''q'')"
  by code_simp+

lemma legacy_files:
  "files legacy_world ''input_files/a'' = Some ''vm_exec_slice_in_instructions=1\<newline>vm_binary=p\<newline>''"
  "files legacy_world ''input_files/b'' = Some ''vm_exec_slice_in_instructions=1\<newline>vm_binary=gone\<newline>''"
  "files legacy_world ''input_files/c'' = Some ''vm_exec_slice_in_instructions=1\<newline>vm_binary=q\<newline>''"
  "files legacy_world ''input_files/p'' = Some legacy_text"
  "files legacy_world ''input_files/q'' = Some blank_text"
  "files legacy_world ''input_files/gone'' = None"
  by (simp_all add: legacy_world_def World_init_def)

lemma legacy_setups:
  "project_setup [''-v'', ''a'', ''-v'', ''a''] legacy_world =
     Inr (istringstream legacy_text, legacy_class ''p'', istringstream legacy_text, legacy_class ''p'', legacy_world)"
  "project_setup [''-v'', ''a'', ''-v'', ''c''] legacy_world =
     Inr (istringstream legacy_text, legacy_class ''p'', istringstream blank_text, legacy_class ''q'', legacy_world)"
  "\<exists>w0. project_setup [''-v'', ''a'', ''-v'', ''b''] legacy_world =
     Inr (istringstream legacy_text, legacy_class ''p'', \<lparr>buf = [], eofbit = False, failbit = True\<rparr>,
          legacy_class ''gone'', w0)"
  by (simp_all add: project_setup_def at_def open_input_def report_open_def legacy_files legacy_config legacy_class_def
      del: istringstream_def)

lemma legacy_runs:
  "returns (exec_lines project_step (read_lines (istringstream legacy_text)) (legacy_class ''p''))"
  "returns (exec_lines hw1_step (read_lines (istringstream legacy_text)) (legacy_named ''vm1''))"
  "returns (exec_lines hw1_step (read_lines (istringstream legacy_text)) (legacy_named ''vm2''))"
  by code_simp+

lemma legacy_live [simp]: "live_stream (istringstream s)" "positive_slice (legacy_class b)"
    "positive_slice (legacy_named b)"
  by (simp_all add: legacy_named_def live_stream_def istringstream_def positive_slice_def legacy_class_def)

text \<open>Two machines of \<open>homework1.cc\<close> with the same file.\<close>

definition turns_world :: World where
  "turns_world = World_init\<lparr>files :=
     [''input_files_hw3/a'' \<mapsto> ''vm_exec_slice_in_instructions=1\<newline>vm_binary=p\<newline>'',
      ''input_files_hw3/p'' \<mapsto> legacy_text]\<rparr>"

definition turns_machine :: "string \<Rightarrow> VmNamed" where
  "turns_machine nm = (legacy_named nm)\<lparr>vm_binary := ''p''\<rparr>"

lemma turns_machines:
  "config_lines (read_lines (istringstream ''vm_exec_slice_in_instructions=1\<newline>vm_binary=p\<newline>'')) (VmNamed_init ''vm1'') =
     Inr (turns_machine ''vm1'')"
  "config_lines (read_lines (istringstream ''vm_exec_slice_in_instructions=1\<newline>vm_binary=p\<newline>'')) (VmNamed_init ''vm2'') =
     Inr (turns_machine ''vm2'')"
  by code_simp+

lemma turns_setup:
  "hw1_setup [Opt_v ''a'', Opt_v ''a''] turns_world =
     Inr (istringstream legacy_text, turns_machine ''vm1'', istringstream legacy_text, turns_machine ''vm2'', turns_world)"
proof -
  have "files turns_world ''input_files_hw3/a'' = Some ''vm_exec_slice_in_instructions=1\<newline>vm_binary=p\<newline>''"
    "files turns_world ''input_files_hw3/p'' = Some legacy_text" "vm_binary (turns_machine nm) = ''p''" for nm
    by (simp_all add: turns_world_def turns_machine_def)
  then show ?thesis
    by (simp add: hw1_setup_def parse_options_def option_step_def at_def hw1_machine_def hw1_machine2_def open_input_def
        report_open_def turns_machines del: istringstream_def)
qed

lemma turns_slice: "vm_exec_slice_in_instructions (turns_machine nm) = Some 1"
  by (simp add: turns_machine_def legacy_named_def)

lemma turns_lines:
  "turn_order (nat 1) (nat 1) (read_lines (istringstream legacy_text)) (read_lines (istringstream legacy_text)) =
     [(True, ''li $1, 7''), (False, ''li $1, 7''), (True, ''add $2, $1, $1''), (False, ''add $2, $1, $1'')]"
proof -
  have "read_lines (istringstream legacy_text) = [''li $1, 7'', ''add $2, $1, $1'']"
    by code_simp
  then show ?thesis
    by (simp add: turn_order.simps)
qed

text \<open>A machine that migrates, and the host of its server.\<close>

definition migrant :: VmMigr where
  "migrant = (VmMigr_init ''vm1'')\<lparr>vm_binary := ''p''\<rparr>"

definition migrant_text :: string where
  "migrant_text = ''li $1, 7\<newline>MIGRATE 10.0.0.1\<newline>add $2, $1, $1\<newline>''"

definition server_world :: World where
  "server_world = World_init\<lparr>files :=
     [''input_files_hw3/a'' \<mapsto> ''vm_binary=p\<newline>'', ''input_files_hw3/p'' \<mapsto> migrant_text]\<rparr>"

definition one_machine :: options where
  "one_machine =
     \<lparr>vm_num = 1, assembly_Files = [''a''], snapshot_Files = [no_snapshot], snapshot_name = no_snapshot\<rparr>"

lemma migrant_options: "parse_options [Opt_v ''a''] server_world = (one_machine, server_world)"
  by (simp add: parse_options_def option_step_def one_machine_def)

lemma migrant_set_up:
  "hw1_machine one_machine 0 ''a'' (VmMigr_init ''vm1'') server_world = Inr (migrant, server_world)"
proof -
  have "config_lines (read_lines (istringstream ''vm_binary=p\<newline>'')) (VmMigr_init ''vm1'') = Inr migrant"
    by code_simp
  then show ?thesis
    by (simp add: hw1_machine_def one_machine_def open_input_def report_open_def server_world_def)
qed

text \<open>A buffer with one value in all its places, behind its first characters.\<close>

lemma drop_replicated: "n < m \<Longrightarrow> drop n (replicate m x) = x # replicate (m - n - 1) x"
  by (simp flip: replicate_Suc)

section \<open>Guests under the hypervisor\<close>

text \<open>
  C1: When HypervisorCore::Run returns, every guest is in the state that the reference semantics
  gives for its program run alone from start to end, and the console is an interleaving, in whole
  lines, of exactly what each guest writes when it is run alone: the scheduler, the time slices
  and the other guests change nothing but the order of the lines.
\<close>

theorem guests_independent_of_schedule:
  assumes "Run h w = Some (Inr (h', w'))" and "list_all rested (vms h)"
  shows "\<exists>log. cout w' = cout w @ written log \<and> fst ` set log \<subseteq> {..<length (vms h)} \<and>
    list_all whole_lines (map snd log) \<and>
    (\<forall>i < length (vms h). outcome (vms h ! i) [] = Inr (vms h' ! i, said i log))"
  using assms by (rule Run_console)

theorem guests_independent_of_schedule_witness:
  "\<exists>h' w' text. Run (demo ''mlfq'') World_init = Some (Inr (h', w')) \<and>
     outcome (VirtualMachine_new vmB demo_code) [] = Inr (vms h' ! 1, text)"
proof -
  obtain h' w' where r: "Run (demo ''mlfq'') World_init = Some (Inr (h', w'))"
    by (rule demo_runs)
  obtain log where "\<forall>i < length (vms (demo ''mlfq'')). outcome (vms (demo ''mlfq'') ! i) [] = Inr (vms h' ! i, said i log)"
    using guests_independent_of_schedule [OF r demo_guests(3)] by blast
  from this [rule_format, of 1] show ?thesis
    using r by auto
qed

text \<open>
  C2: Every state that the loop of HypervisorCore::Run passes through, whether or not it ever
  ends, has the same guests: each keeps its program and configuration, has a full register file, a
  coherent translation cache, its program counter within its program and no migration pending; the
  state it will end in never changes, and a guest that is halted or faulted is never touched
  again.
\<close>

theorem hypervisor_invariant:
  assumes "round_step\<^sup>*\<^sup>* (h, w) (h', w')" and "list_all rested (vms h)" and "i < length (vms h)"
  shows "length (vms h') = length (vms h) \<and> rested (vms h' ! i) \<and>
    program (vms h' ! i) = program (vms h ! i) \<and> config (vms h' ! i) = config (vms h ! i) \<and>
    final_vm (vms h' ! i) = final_vm (vms h ! i) \<and>
    (is_done (status (vms h ! i)) \<longrightarrow> vms h' ! i = vms h ! i)"
  using rounds_invariant [OF assms] by simp

theorem hypervisor_invariant_witness:
  "\<exists>h' w'. round_step\<^sup>*\<^sup>* (demo ''mlfq'', World_init) (h', w') \<and> allDone h' \<and> rested (vms h' ! 1)"
proof -
  obtain h' w' where r: "Run (demo ''mlfq'') World_init = Some (Inr (h', w'))"
    by (rule demo_runs)
  then obtain h1 w1 where s: "round_step\<^sup>*\<^sup>* (demo ''mlfq'', World_init) (h1, w1)" and "h1 = h'"
    using Run_reaches by fastforce
  then show ?thesis
    using hypervisor_invariant [OF s demo_guests(3), of 1] Run_allDone [OF r] by auto
qed

text \<open>
  C3: When no slice is empty (and, for the priority scheduler, priorities are above its floor),
  HypervisorCore::Run returns normally under each of the three schedulers exactly when every
  guest, run alone, comes to halt or fault; it then takes no more rounds than there are
  instructions left and guests to run together, and all guests are halted or faulted. Without a
  MIGRATE in the programs the loop ends in any case, and guests without a MIGRATE that cannot
  index outside the register file or overflow do come to an end.
\<close>

theorem hypervisor_terminates:
  assumes "PickNext h = IScheduler_PickNext"
    and "IScheduler_inv (sched h) (statuses h) (priorities h)"
    and "list_all rested (vms h)" and "list_all (\<lambda>vm. execSlice (config vm) \<noteq> 0) (vms h)"
  shows "((\<exists>h' w'. Run h w = Some (Inr (h', w'))) \<longleftrightarrow> list_all finishes (vms h)) \<and>
    (list_all finishes (vms h) \<longrightarrow>
      (\<exists>n \<le> work_left h. \<exists>h' w'. (round_step ^^ n) (h, w) (h', w') \<and> Run h w = Some (Inr (h', w')) \<and> allDone h')) \<and>
    (list_all no_migrate (vms h) \<longrightarrow>
      (\<exists>r. Run h w = Some r) \<and> (list_all abort_free (vms h) \<longrightarrow> list_all finishes (vms h)))"
proof -
  have rounds: "\<exists>n \<le> work_left h. \<exists>h' w'. (round_step ^^ n) (h, w) (h', w') \<and> Run h w = Some (Inr (h', w')) \<and> allDone h'"
    if "list_all finishes (vms h)"
  proof -
    have "list_all ending_guest (vms h)"
      using that assms(3,4) by (simp add: list_all_iff ending_guest_def)
    then obtain n h' w' where "n \<le> work_left h" "(round_step ^^ n) (h, w) (h', w')" "Run h w = Some (Inr (h', w'))"
      by (rule Run_returns_rounds [OF assms(1,2)])
    then show ?thesis
      using Run_allDone by blast
  qed
  have good: "list_all good_guest (vms h)" if "list_all no_migrate (vms h)"
    using that assms(3,4) by (simp add: list_all_iff good_guest_def)
  show ?thesis
    using rounds Run_finishes [OF _ assms(3)] chosen.Run_returns [OF assms(1,2) good]
      good_guests_finish [OF assms(1,2) good] by blast
qed

theorem hypervisor_terminates_witness:
  "\<exists>n \<le> 12. \<exists>h' w'. (round_step ^^ n) (demo ''priority'', World_init) (h', w') \<and>
     Run (demo ''priority'') World_init = Some (Inr (h', w')) \<and> allDone h'"
proof -
  have "list_all (\<lambda>vm. execSlice (config vm) \<noteq> 0 \<and> no_migrate vm \<and> abort_free vm) (vms (demo ''priority''))"
    using demo_guests(1,2) [of "''priority''"] unfolding list_all_iff sound_guest_def good_guest_def by blast
  then have "list_all (\<lambda>vm. execSlice (config vm) \<noteq> 0) (vms (demo ''priority''))"
    "list_all no_migrate (vms (demo ''priority''))" "list_all abort_free (vms (demo ''priority''))"
    by (auto simp: list_all_iff)
  moreover have "work_left (demo ''priority'') = 12"
    by (simp add: work_left_def instructions_left_def demo_code_facts(2) is_done_def)
  ultimately show ?thesis
    using hypervisor_terminates [OF demo_fields(2) demo_scheduler demo_guests(3), of "''priority''" World_init]
    by simp
qed

text \<open>
  C4: A live guest whose next instruction is a MIGRATE never gets past it: in every later round of
  HypervisorCore::Run it is still live, with the same program counter, registers and memory, so
  Run does not return normally, whatever the scheduler, the transport and the other guests do, and
  does not return at all when no guest can abort. The same holds for a live guest that has an
  empty slice, an instruction left to execute and no migration pending (one whose program counter
  is at the end of its program would be halted by its first slice instead).
\<close>

theorem migrate_livelock:
  assumes "i < length (vms h)" and "stuck (vms h ! i)"
  shows "(\<forall>h' w'. round_step\<^sup>*\<^sup>* (h, w) (h', w') \<longrightarrow> stuck (vms h' ! i) \<and>
      vcpu (vms h' ! i) = vcpu (vms h ! i) \<and> memory (vms h' ! i) = memory (vms h ! i)) \<and>
    Run h w \<noteq> Some (Inr r) \<and> (list_all sound_guest (vms h) \<longrightarrow> Run h w = None)"
  using stuck_rounds [OF _ assms] Run_stuck [OF assms] Run_stuck_diverges [OF assms] by (auto simp: same_core_def)

theorem migrate_livelock_witness:
  "Run (lone (VirtualMachine_new vmA [Instruction_init\<lparr>opcode := Migrate, label := ''peer''\<rparr>])) World_init = None"
proof -
  let ?vm = "VirtualMachine_new vmA [Instruction_init\<lparr>opcode := Migrate, label := ''peer''\<rparr>]"
  have "0 < length (vms (lone ?vm))" and "stuck (vms (lone ?vm) ! 0)"
    by (simp_all add: stuck_def Instruction_init_def)
  moreover have "list_all sound_guest (vms (lone ?vm))"
    using rested_new [of "[Instruction_init\<lparr>opcode := Migrate, label := ''peer''\<rparr>]" vmA]
    by (simp add: sound_guest_def abort_free_def safe_regs_def is_arith_def Instruction_init_def)
  ultimately show ?thesis
    using migrate_livelock by blast
qed

text \<open>
  C5: Preemption is invisible to a guest: a slice of a instructions that leaves the machine ready,
  followed by a slice of b instructions, has the state, the output, the abort and the total count
  of one slice of a + b instructions.
\<close>

theorem slicing_transparent:
  assumes "ok_vm vm" and "RunForSlice a vm out = Inr (k, vm1, out1)" and "status vm1 = Ready"
    and "unat a + unat b < 2 ^ 64"
  shows "RunForSlice (a + b) vm out = bind_cpp (RunForSlice b vm1 out1) (\<lambda>r. Inr (add_retired k r))"
  using assms by (rule RunForSlice_compose)

theorem slicing_transparent_witness:
  "\<exists>vm1. RunForSlice 1 tiny [] = Inr (1, vm1, []) \<and>
     RunForSlice 3 tiny [] = bind_cpp (RunForSlice 2 vm1 []) (\<lambda>r. Inr (add_retired 1 r))"
proof -
  obtain vm1 where r: "RunForSlice 1 tiny [] = Inr (1, vm1, [])" "status vm1 = Ready"
    using tiny_slice by blast
  show ?thesis
    using slicing_transparent [OF tiny_ok r, of 2] r(1) by auto
qed

text \<open>
  C6: A slice of n instructions retires at most n, moves the program counter by exactly what it
  returns, never past the end of the program, and leaves the machine ready only after n
  instructions with the program not finished; a halted or faulted machine is left alone.
\<close>

theorem slice_account:
  assumes "ok_vm vm" and "RunForSlice n vm out = Inr (k, vm', out')"
  shows "ok_vm vm' \<and> config vm' = config vm \<and> program vm' = program vm \<and>
    k \<le> unat n \<and> pc_nat vm' = pc_nat vm + k \<and>
    (if is_done (status vm) then vm' = vm \<and> out' = out
     else status vm' = Ready \<longrightarrow> k = unat n \<and> pc_nat vm' < length (program vm))"
proof (cases "is_done (status vm)")
  case True
  then show ?thesis
    using assms by auto
next
  case False
  then show ?thesis
    using ok_vm_RunForSlice [OF assms] RunForSlice_frame [OF assms(2)] RunForSlice_account [OF assms(1) False assms(2)]
    by auto
qed

theorem slice_account_witness:
  "\<exists>vm1. RunForSlice 1 tiny [] = Inr (1, vm1, []) \<and> ok_vm vm1 \<and> pc_nat vm1 = pc_nat tiny + 1"
proof -
  obtain vm1 where r: "RunForSlice 1 tiny [] = Inr (1, vm1, [])"
    using tiny_slice by blast
  show ?thesis
    using slice_account [OF tiny_ok r] r by auto
qed

text \<open>
  C7: When the register operands of a program are in the register file, running a slice of it
  never reads or writes outside the register file or the backing memory: the only undefined
  behaviour that is left is a signed overflow, and only with an arithmetic instruction in the
  program.
\<close>

theorem register_safe_programs:
  assumes "wf_vm vm" and "list_all safe_regs (program vm)"
  shows "RunForSlice n vm out = Inl e \<Longrightarrow> e = UB_Overflow \<and> list_ex is_arith (program vm)"
  using RunForSlice_abort [OF assms] .

theorem register_safe_programs_witness:
  "RunForSlice 5 tiny [] \<noteq> Inl UB_Bounds \<and> RunForSlice 5 tiny [] \<noteq> Inl UB_Overflow"
proof -
  have "wf_vm tiny" and "list_all safe_regs (program tiny)" and "\<not> list_ex is_arith (program tiny)"
    using tiny_ok by (simp_all add: ok_vm_def tiny_def tiny_code_def VirtualMachine_new_def safe_regs_def
        is_arith_def in_file_def Instruction_init_def)
  then show ?thesis
    using register_safe_programs [of tiny 5 "[]"] by blast
qed

section \<open>The memory of a guest\<close>

text \<open>
  C8: The translation cache is invisible: with a cache that agrees with the page table, ReadWord
  returns what a plain page-table walk reads and changes nothing a walk sees, and WriteWord faults
  where the walk faults and otherwise overwrites exactly the four bytes at the walked address.
  Neither ever leaves the backing store.
\<close>

theorem translation_cache_transparent:
  assumes "coherent m"
  shows "(\<exists>m'. ReadWord a m = Inr (walk_read m a, m') \<and> coherent m' \<and> same_store m m') \<and>
    (\<exists>m'. WriteWord a v m = Inr (case page_walk m a of Inl f \<Rightarrow> Inl f | Inr _ \<Rightarrow> Inr (), m') \<and>
          coherent m' \<and> pages m' = pages m \<and>
          bytes m' = (case page_walk m a of
                        Inl _ \<Rightarrow> bytes m
                      | Inr p \<Rightarrow> splice_at (unat p) (le_bytes 4 v) (bytes m)))"
  using ReadWord_walk [OF assms] WriteWord_walk [OF assms] by simp

theorem translation_cache_transparent_witness:
  "\<exists>m'. ReadWord 4 (MapPage 0 0 (VirtualMemory_new 8)) = Inr (Inr 0, m')"
proof -
  have "walk_read (MapPage 0 0 (VirtualMemory_new 8)) 4 = Inr 0"
    by code_simp
  then show ?thesis
    using translation_cache_transparent [OF coherent_MapPage [OF coherent_new], of 4 0 0 8] by auto
qed

text \<open>
  C9: A word that was stored is loaded back, after reads of any address and after stores to words
  whose bytes do not overlap it in the backing store, whether or not the translations are cached.
\<close>

theorem stores_are_loaded_back:
  assumes "coherent m" and "WriteWord a v m = Inr (Inr (), m1)" and "WriteWord b u m1 = Inr (r, m2)"
    and "disjoint_words m1 b a" and "ReadWord c m2 = Inr (q, m3)"
  shows "\<exists>m4. ReadWord a m3 = Inr (Inr v, m4)"
proof -
  have m2: "coherent m2"
    using paged.store_inv assms(1-3) by blast
  obtain m' where "ReadWord a m2 = Inr (Inr v, m')"
    using paged.store_store_load [OF assms(1-4)] by blast
  then have "walk_read m2 a = Inr v"
    using paged.load_law [OF m2, of a] by auto
  moreover have "coherent m3" and "walk_read m3 = walk_read m2"
    using paged.load_law [OF m2, of c] assms(5) by auto
  ultimately show ?thesis
    using paged.load_law [of m3 a] by auto
qed

theorem stores_are_loaded_back_witness:
  "\<exists>m1 m2 q m3 m4. WriteWord 0 7 (VirtualMemory_new 8) = Inr (Inr (), m1) \<and>
     WriteWord 4 9 m1 = Inr (Inr (), m2) \<and> ReadWord 4 m2 = Inr (q, m3) \<and> ReadWord 0 m3 = Inr (Inr 7, m4)"
proof -
  have w: "page_walk (VirtualMemory_new 8) 0 = Inr 0" "page_walk (VirtualMemory_new 8) 4 = Inr 4"
    by code_simp+
  obtain m1 where m1: "WriteWord 0 7 (VirtualMemory_new 8) = Inr (Inr (), m1)" "coherent m1"
    using WriteWord_walk [OF coherent_new, of 0 7 8] w by auto
  have w1: "page_walk m1 0 = Inr 0" "page_walk m1 4 = Inr 4"
    using page_walk_WriteWord [OF coherent_new m1(1)] w by simp_all
  obtain m2 where m2: "WriteWord 4 9 m1 = Inr (Inr (), m2)" "coherent m2"
    using WriteWord_walk [OF m1(2), of 4 9] w1 by auto
  obtain q m3 where m3: "ReadWord 4 m2 = Inr (q, m3)"
    using ReadWord_walk [OF m2(2), of 4] by blast
  have "disjoint_words m1 4 0"
    using w1 by (simp add: disjoint_words_def)
  from stores_are_loaded_back [OF coherent_new m1(1) m2(1) this m3] show ?thesis
    using m1 m2 m3 by blast
qed

text \<open>
  C10: A new memory of n bytes, for n below 2^43 so that the page numbers fit, reads 0 at every
  address whose word fits, faults with AddressOutOfRange in the rest of its last page and with
  PageFault beyond.
\<close>

theorem new_memory_map:
  assumes "unat n < 2 ^ 43"
  shows "\<exists>m'. ReadWord a (VirtualMemory_new n) =
    Inr (if unat a + 4 \<le> unat n then Inr 0
         else if unat a div 4096 < (unat n + 4095) div 4096 then Inl range_fault
         else Inl page_fault, m')"
  using ReadWord_walk [OF coherent_new [of n], of a] walk_read_new [OF assms, of a] by (simp only:) blast

theorem new_memory_map_witness:
  "(\<exists>m'. ReadWord 65532 (VirtualMemory_new 65536) = Inr (Inr 0, m')) \<and>
   (\<exists>m'. ReadWord 65533 (VirtualMemory_new 65536) = Inr (Inl range_fault, m')) \<and>
   (\<exists>m'. ReadWord 65536 (VirtualMemory_new 65536) = Inr (Inl page_fault, m'))"
  using new_memory_map [of 65536 65532] new_memory_map [of 65536 65533] new_memory_map [of 65536 65536] by simp

section \<open>Programs as text\<close>

text \<open>
  C11: Writing a program as assembly text and parsing it gives the program back, for every program
  of the instructions the parser can produce; and every program the parser accepts is one of
  these, so the parser is onto them and never yields the opcodes And, Or, Xor, Sll, Srl.
\<close>

theorem parser_round_trip:
  "(list_all canonical p \<longrightarrow> ParseProgram (map render p) = Inr p) \<and>
   (ParseProgram ls = Inr q \<longrightarrow> list_all canonical q \<and> ParseProgram (map render q) = Inr q \<and>
      list_all (\<lambda>i. opcode i \<notin> {And, Or, Xor, Sll, Srl}) q)"
proof (intro conjI [OF impI impI])
  show "list_all canonical p \<Longrightarrow> ParseProgram (map render p) = Inr p"
    by (rule ParseProgram_render)
  assume "ParseProgram ls = Inr q"
  then have c: "list_all canonical q"
    using ParseProgram_canonical by blast
  have "opcode i \<notin> {And, Or, Xor, Sll, Srl}" if "canonical i" for i
    using that by (auto simp: canonical_def)
  then show "list_all canonical q \<and> ParseProgram (map render q) = Inr q \<and>
      list_all (\<lambda>i. opcode i \<notin> {And, Or, Xor, Sll, Srl}) q"
    using c ParseProgram_render [OF c] by (auto simp: list_all_iff)
qed

theorem parser_round_trip_witness:
  "ParseProgram (map render demo_code) = Inr demo_code \<and> list_all canonical demo_code"
  using parser_round_trip [of demo_code demoProgram demo_code] demo_parses by blast

section \<open>Scheduling\<close>

text \<open>
  C12: Neither round robin nor the multi-level queue starves a guest: wherever a run of
  HypervisorCore::Run that began with a new scheduler has got to, a guest that is neither halted
  nor faulted is passed over in fewer consecutive rounds than there are machines under round
  robin, and in at most three times as many under the multi-level queue, whatever the other guests
  do.
\<close>

theorem no_guest_starves:
  assumes "PickNext h0 = IScheduler_PickNext" and "sched h0 = BuildScheduler nm" and "nm \<noteq> ''priority''"
    and "round_step\<^sup>*\<^sup>* (h0, w0) (h, w)" and "(overlooks i ^^ k) (h, w) (h', w')"
    and "i < length (vms h0)" and "\<not> is_done (status (vms h' ! i))"
  shows "k \<le> 3 * length (vms h0) \<and> (nm \<noteq> ''mlfq'' \<longrightarrow> k < length (vms h0))"
  using overlooked_guest [OF assms] by blast

theorem no_guest_starves_witness:
  "\<exists>s. (overlooks 1 ^^ 1) (duo ''round_robin'', World_init) s \<and> 1 < length (vms (duo ''round_robin''))"
proof -
  obtain h' w' where r: "Run_round (duo ''round_robin'') World_init = Inr (Some (h', w'))"
    and p: "fst (pick_of (duo ''round_robin'')) = 0" and v: "vms h' ! 1 = tiny"
    using duo_round [of "''round_robin''"] by blast
  have o: "(overlooks 1 ^^ 1) (duo ''round_robin'', World_init) (h', w')"
    unfolding relpowp_1 using r p by (simp add: overlooks_def round_step_iff)
  have "1 < length (vms (duo ''round_robin''))"
    using no_guest_starves [OF duo_fields(2,3) _ rtranclp.rtrancl_refl o] v by (simp add: is_done_def)
  with o show ?thesis by blast
qed

text \<open>
  C13: Under the priority scheduler a guest is not touched, in any number of rounds of
  HypervisorCore::Run, as long as a guest of greater priority (above -1000000) is neither halted
  nor faulted: priorities are strict, whatever the order of the machines.
\<close>

theorem priority_strict:
  assumes "round_step\<^sup>*\<^sup>* (h, w) (h', w')"
    and "PickNext h = IScheduler_PickNext" and "sched h = BuildScheduler ''priority''"
    and "i < length (vms h)" and "j < length (vms h)"
    and "priority (config (vms h ! i)) < priority (config (vms h ! j))" and "- 1000000 < priority (config (vms h ! j))"
    and "\<not> is_done (status (vms h' ! j))"
  shows "vms h' ! i = vms h ! i"
  using assms(1,2) _ assms(4-8) by (rule rounds_priority) (simp add: assms(3) BuildScheduler_def)

theorem priority_strict_witness:
  "\<exists>h' w'. round_step\<^sup>*\<^sup>* (duo ''priority'', World_init) (h', w') \<and> \<not> is_done (status (vms h' ! 0)) \<and> vms h' ! 1 = tiny"
proof -
  obtain h' w' where r: "Run_round (duo ''priority'') World_init = Inr (Some (h', w'))" and s: "status (vms h' ! 0) = Ready"
    using duo_round [of "''priority''"] by blast
  have "round_step\<^sup>*\<^sup>* (duo ''priority'', World_init) (h', w')"
    using r by (intro r_into_rtranclp) (simp add: round_step_iff)
  then show ?thesis
    using priority_strict [of "duo ''priority''" World_init h' w' 1 0] s
    by (intro exI [of _ h'] exI [of _ w']) (simp add: is_done_def)
qed

text \<open>
  C14: The priority scheduler never prefers a machine whose priority is at most -1000000: once
  machine 0 is done and only such machines are live, it keeps picking machine 0 and
  HypervisorCore::Run never returns.
\<close>

theorem priority_floor_livelock:
  assumes "PickNext h = Priority_PickNext" and "\<not> live (statuses h) 0" and "live (statuses h) j"
    and "\<And>i. live (statuses h) i \<Longrightarrow> priorities h ! i \<le> - 1000000"
  shows "Run h w = None"
  using assms by (rule Run_priority_floor)

theorem priority_floor_livelock_witness:
  "Run (AddVm (VirtualMachine_new (vmA\<lparr>priority := - 1000000\<rparr>) demo_code)
         (AddVm ((VirtualMachine_new vmB demo_code)\<lparr>status := Halted\<rparr>)
            (HypervisorCore_new Priority_PickNext ()
              \<lparr>transport = LocalTransport, transport_state = (), service_metrics = MetricsTracer_init\<rparr>))) World_init = None"
  by (rule priority_floor_livelock [where j = 1])
    (auto simp: AddVm_def HypervisorCore_new_def statuses_def priorities_def live_def less_Suc_eq)

text \<open>
  C15: When HypervisorCore::Run returns, no migration has taken place: nothing was sent, the
  migration service is as it was and no failure was reported. The instructions the metrics count
  for each machine have then grown by exactly the distance its program counter moved, provided the
  machines have different names, and no other name is counted.
\<close>

theorem metrics_account:
  assumes "Run h w = Some (Inr (h', w'))" and "list_all rested (vms h)" and "distinct (vm_names h)"
  shows "migrationService h' = migrationService h \<and> cerr w' = cerr w \<and>
    counted (metrics h') \<subseteq> counted (metrics h) \<union> set (vm_names h) \<and>
    (\<forall>i < length (vms h). retired_count (metrics h') (vm_names h ! i) - retired_count (metrics h) (vm_names h ! i) =
       pc (vcpu (vms h' ! i)) - pc (vcpu (vms h ! i)))"
proof -
  have "retired_count (metrics h') (vm_names h ! i) - retired_count (metrics h) (vm_names h ! i) =
      pc (vcpu (vms h' ! i)) - pc (vcpu (vms h ! i))" if "i < length (vms h)" for i
    using Run_surplus [OF assms(1) Run_closing [OF assms(1,2)] assms(3) that]
    by (simp add: surplus_def) (simp add: algebra_simps)
  then show ?thesis
    using Run_silent [OF assms(1,2)] Run_counted [OF assms(1,2)] by simp
qed

theorem metrics_account_witness:
  "\<exists>h' w'. Run (demo ''round_robin'') World_init = Some (Inr (h', w')) \<and>
     retired_count (metrics h') ''vmA'' = pc (vcpu (vms h' ! 0)) \<and> cerr w' = cerr World_init"
proof -
  obtain h' w' where r: "Run (demo ''round_robin'') World_init = Some (Inr (h', w'))"
    by (rule demo_runs)
  have n: "distinct (vm_names (demo ''round_robin''))" "vm_names (demo ''round_robin'') ! 0 = ''vmA''"
    unfolding demo_names by simp_all
  from metrics_account [OF r demo_guests(3) n(1)]
  have "\<forall>i < length (vms (demo ''round_robin'')).
      retired_count (metrics h') (vm_names (demo ''round_robin'') ! i)
        - retired_count (metrics (demo ''round_robin'')) (vm_names (demo ''round_robin'') ! i) =
      pc (vcpu (vms h' ! i)) - pc (vcpu (vms (demo ''round_robin'') ! i))" and "cerr w' = cerr World_init"
    by blast+
  from this(1) [rule_format, of 0] this(2) show ?thesis
    using r n(2) by (simp add: MetricsTracer_init_def)
qed

section \<open>Snapshots and migration\<close>

text \<open>
  C16: Deserializing a serialized snapshot restores the name, the processor and the memory bytes,
  for names and memories whose length fits 32 bits; the page table is not transferred, the target
  keeps its own.
\<close>

theorem packet_round_trip:
  assumes "fits_packet s" and "length (regs (cpu t)) = length (regs (cpu s))"
  shows "Deserialize (Serialize s) t = Inr (Inr (), s\<lparr>pageTable := pageTable t\<rparr>)"
  using assms by (rule Deserialize_Serialize)

theorem packet_round_trip_witness:
  "Deserialize (Serialize (VmSnapshot_init\<lparr>vmName := ''vm'', memoryBytes := [1, 2, 255]\<rparr>)) VmSnapshot_init =
     Inr (Inr (), VmSnapshot_init\<lparr>vmName := ''vm'', memoryBytes := [1, 2, 255]\<rparr>)"
  using packet_round_trip [of "VmSnapshot_init\<lparr>vmName := ''vm'', memoryBytes := [1, 2, 255]\<rparr>" VmSnapshot_init]
  by (simp add: fits_packet_def VmSnapshot_init_def)

text \<open>
  C17: Changing any one byte of the payload of a packet is detected: the receiver reports a
  checksum mismatch and leaves its snapshot alone.
\<close>

theorem corrupted_packet_refused:
  assumes "payload (Serialize s) = xs @ b # ys" and "b' \<noteq> b"
  shows "Deserialize ((Serialize s)\<lparr>payload := xs @ b' # ys\<rparr>) t = Inr (Inl ''migration checksum mismatch'', t)"
  using assms by (rule Deserialize_corrupted)

theorem corrupted_packet_refused_witness:
  "\<exists>ys. payload (Serialize VmSnapshot_init) = 0 # ys \<and>
     Deserialize ((Serialize VmSnapshot_init)\<lparr>payload := 1 # ys\<rparr>) VmSnapshot_init =
       Inr (Inl ''migration checksum mismatch'', VmSnapshot_init)"
proof -
  have "payload (Serialize VmSnapshot_init) = [] @ 0 # tl (payload (Serialize VmSnapshot_init))"
    by code_simp
  then show ?thesis
    using corrupted_packet_refused [of VmSnapshot_init "[]" 0 _ 1 VmSnapshot_init] by auto
qed

text \<open>
  C18: The length of a payload is never checked: a packet of version 1 with a payload shorter than
  its first field and the matching checksum passes both tests and is then read past its end.
\<close>

theorem truncated_packet_undefined:
  assumes "length bs < 4"
  shows "Deserialize \<lparr>version = 1, checksum = ComputeChecksum bs, payload = bs\<rparr> t = Inl UB_Bounds"
  using assms by (rule Deserialize_truncated)

theorem truncated_packet_undefined_witness:
  "Deserialize \<lparr>version = 1, checksum = 2166136261, payload = []\<rparr> VmSnapshot_init = Inl UB_Bounds"
  using truncated_packet_undefined [of "[]" VmSnapshot_init] by (simp add: ComputeChecksum_def)

text \<open>
  C19: A machine that is snapshot, serialized, deserialized into a snapshot with the sender's page
  table and restored continues exactly like the original: each slice has the same count, output
  and abort, and ends in states that no guest can tell apart.
\<close>

theorem resume_equivalent:
  assumes "ok_vm vm" and "\<not> is_done (status vm)" and "fits_packet (vm_Snapshot vm)"
    and "config vm0 = config vm" and "program vm0 = program vm"
    and "wf_cpu (cpu t)" and "pageTable t = pages (memory vm)"
  shows "\<exists>s. Deserialize (Serialize (vm_Snapshot vm)) t = Inr (Inr (), s) \<and>
             same_result (RunForSlice n (Restore s vm0) out) (RunForSlice n vm out)"
  using assms by (rule resume_with_page_table)

theorem resume_equivalent_witness:
  "\<exists>s. Deserialize (Serialize (vm_Snapshot tiny)) (VmSnapshot_init\<lparr>pageTable := pages (memory tiny)\<rparr>) = Inr (Inr (), s) \<and>
       same_result (RunForSlice 3 (Restore s tiny) []) (RunForSlice 3 tiny [])"
  by (rule resume_equivalent [OF tiny_ok])
    (simp_all add: tiny_def tiny_config_def VmConfig_init_def VirtualMachine_new_def vm_Snapshot_def fits_packet_def
      VirtualMemory_new_def Let_def VmSnapshot_init_def)

text \<open>
  C20: The page table is missing from the packet: a machine restored from a packet that was
  received into an empty snapshot has the sender's registers and bytes, and its first load faults
  with PageFault.
\<close>

theorem resume_without_pages_faults:
  assumes "fits_packet (vm_Snapshot vm)" and "wf_vm vm" and "opcode i = Lw"
  shows "\<exists>s. Deserialize (Serialize (vm_Snapshot vm)) VmSnapshot_init = Inr (Inr (), s) \<and>
    vcpu (Restore s vm0) = vcpu vm \<and> bytes (memory (Restore s vm0)) = bytes (memory vm) \<and>
    (\<exists>vm'. ExecuteOne i (Restore s vm0) out = Inr (0, vm', out) \<and> status vm' = Faulted \<and> lastFault vm' = page_fault)"
proof -
  obtain s where s: "Deserialize (Serialize (vm_Snapshot vm)) VmSnapshot_init = Inr (Inr (), s)"
    "vcpu (Restore s vm0) = vcpu vm" "bytes (memory (Restore s vm0)) = bytes (memory vm)"
    "wf_vm (Restore s vm0)" "\<And>a. walk_read (memory (Restore s vm0)) a = Inl page_fault"
    using resume_without_page_table [OF assms(1,2)] by blast
  then obtain m where "ReadWord (imm i) (memory (Restore s vm0)) = Inr (Inl page_fault, m)"
    using ReadWord_walk [of "memory (Restore s vm0)" "imm i"] by (auto simp: wf_vm_def)
  then show ?thesis
    using s(1-3) assms(3) by (auto simp: ExecuteOne_def fault_with_def)
qed

theorem resume_without_pages_faults_witness:
  "\<exists>s. Deserialize (Serialize (vm_Snapshot tiny)) VmSnapshot_init = Inr (Inr (), s) \<and>
    (\<exists>vm'. ExecuteOne (tiny_code ! 2) (Restore s tiny) [] = Inr (0, vm', []) \<and> status vm' = Faulted \<and> lastFault vm' = page_fault)"
proof -
  have "fits_packet (vm_Snapshot tiny)" and "wf_vm tiny" and "opcode (tiny_code ! 2) = Lw"
    using tiny_ok by (simp_all add: ok_vm_def tiny_def tiny_code_def tiny_config_def VmConfig_init_def Instruction_init_def
        VirtualMachine_new_def vm_Snapshot_def fits_packet_def VirtualMemory_new_def Let_def)
  then show ?thesis
    using resume_without_pages_faults [of tiny "tiny_code ! 2" tiny "[]"] by blast
qed

text \<open>
  C21: SendWithRetry sends nothing after a refused handshake; otherwise it sends the packet until
  the transport accepts it, at most three times, succeeds exactly when one of the first three
  attempts is accepted, and stops at the first such attempt.
\<close>

theorem retry_protocol:
  assumes "Handshake tr target (version p) t = (b, t')"
  shows "SendWithRetry tr target p t =
    (if \<not> b then (Inl ''handshake failed'', t')
     else case find (accepted tr p t') [0..<3] of
            Some k \<Rightarrow> (Inr (), sent tr p (Suc k) t')
          | None \<Rightarrow> (Inl ''packet send retries exhausted'', sent tr p 3 t'))"
proof (cases "find (accepted tr p t') [0..<3]")
  case None
  then have "\<forall>j < 3. \<not> accepted tr p t' j"
    by (simp add: find_None_iff)
  then show ?thesis
    using assms None send_attempts_exhaust [of 3 tr p t'] by (cases b) (simp_all add: SendWithRetry_def)
next
  case (Some k)
  then have "k < 3" and "accepted tr p t' k" and "\<forall>j < k. \<not> accepted tr p t' j"
    by (auto simp: find_Some_iff)
  then show ?thesis
    using assms Some send_attempts_accept [of tr p t' k 3] by (cases b) (simp_all add: SendWithRetry_def)
qed

theorem retry_protocol_witness:
  "SendWithRetry \<lparr>Handshake = (\<lambda>_ _ t. (True, t)), SendPacket = (\<lambda>_ t. (t = 1, Suc t))\<rparr> ''peer''
     (Serialize VmSnapshot_init) (0 :: nat) = (Inr (), 2)"
  by (subst retry_protocol [where b = True and t' = 0]) (simp_all add: accepted_def upt_rec)

text \<open>
  C22: A snapshot saved to a file and loaded again is the same in name, processor and memory
  bytes, provided the name has no line break; the page table is not saved, the target keeps its
  own.
\<close>

theorem snapshot_file_round_trip:
  assumes "savable s" and "writable w path" and "length (regs (cpu t)) = length (regs (cpu s))"
    and "regs (cpu s) \<noteq> []"
  shows "\<exists>w'. Save s path w = (Inr (), w') \<and> Load path t w' = Inr (Inr (), s\<lparr>pageTable := pageTable t\<rparr>)"
  using assms by (rule Load_Save)

theorem snapshot_file_round_trip_witness:
  "\<exists>w'. Save (VmSnapshot_init\<lparr>vmName := ''my vm'', memoryBytes := [7, 200]\<rparr>) ''f'' World_init = (Inr (), w') \<and>
     Load ''f'' VmSnapshot_init w' = Inr (Inr (), VmSnapshot_init\<lparr>vmName := ''my vm'', memoryBytes := [7, 200]\<rparr>)"
  using snapshot_file_round_trip [of "VmSnapshot_init\<lparr>vmName := ''my vm'', memoryBytes := [7, 200]\<rparr>" World_init "''f''"
      VmSnapshot_init]
  by (simp add: savable_def max_vector_def VmSnapshot_init_def World_init_def CpuState_init_def)

text \<open>
  C23: PreCopyMigrate lets the machine run two slices, sends the serialized snapshot of the state
  it is then in, and reports what the retry protocol reports; the machine stays in order with its
  program, keeps the state it will end in, and goes on existing on the source.
\<close>

theorem migration_outcome:
  assumes "PreCopyMigrate vm target ms w = Inr (r, vm', ms', w')" and "ok_vm vm"
  shows "(r, transport_state ms') =
           SendWithRetry (transport ms) target (Serialize (vm_Snapshot vm')) (transport_state ms) \<and>
         precopy_rounds 2 vm (cout w) = Inr (vm', cout w') \<and>
         ok_vm vm' \<and> config vm' = config vm \<and> program vm' = program vm \<and> final_vm vm' = final_vm vm"
  using PreCopyMigrate_Inr(1,2) [OF assms(1)] PreCopyMigrate_ok [OF assms]
    precopy_final_vm [OF assms(2) PreCopyMigrate_Inr(1) [OF assms(1)]] by simp

theorem migration_outcome_witness:
  "\<exists>vm' ms' w'. PreCopyMigrate tiny ''peer'' local_service World_init = Inr (Inr (), vm', ms', w') \<and> ok_vm vm'"
proof -
  have "returns (PreCopyMigrate tiny ''peer'' local_service World_init)"
    using tiny_ok by (intro PreCopyMigrate_returns) (simp_all add: ok_vm_def abort_free_def tiny_def tiny_code_def
        VirtualMachine_new_def safe_regs_def is_arith_def in_file_def Instruction_init_def)
  then obtain r vm' ms' w' where p: "PreCopyMigrate tiny ''peer'' local_service World_init = Inr (r, vm', ms', w')"
    by (auto simp: returns_iff)
  have "r = Inr ()"
    using migration_outcome [OF p tiny_ok] local.SendWithRetry_succeeds [of "''peer''" "Serialize (vm_Snapshot vm')" "()"]
    by (simp add: local_service_def) (metis fst_conv)
  then show ?thesis
    using p migration_outcome [OF p tiny_ok] by blast
qed

text \<open>
  C24: A round of HypervisorCore::Run that begins with machines in order and no migration pending
  sends a packet exactly when the slice of the chosen guest reaches a MIGRATE, that is when one of
  the next as many instructions as the slice has is a MIGRATE and each one before it retires. Then
  the guest ends the round blocked at that MIGRATE, the packet of its snapshot has gone to the
  target the instruction names, through the retry protocol, and an error is reported on cerr. In
  every other round the guest is not blocked, nothing is sent and nothing is reported.
\<close>

theorem migration_round:
  assumes "Run_round h w = Inr (Some (h', w'))" and "list_all rested (vms h)" and "fst (pick_of h) = i"
    and "vm = vms h ! i" and "vm' = vms h' ! i"
  shows "if live (statuses h) i \<and>
        reaches_migrate (unat (execSlice (config vm))) (drop (pc_nat vm) (program vm)) (vm\<lparr>status := Running\<rparr>)
    then status vm' = Blocked \<and> parked vm' \<and>
      (\<exists>r. (r, transport_state (migrationService h')) =
             SendWithRetry (transport (migrationService h)) (target_of vm')
               (Serialize (vm_Snapshot vm')) (transport_state (migrationService h)) \<and>
           cerr w' = cerr w @ (case r of Inl error \<Rightarrow> migration_failed_text (name (config vm)) error
                                       | Inr _ \<Rightarrow> []))
    else transport_state (migrationService h') = transport_state (migrationService h) \<and> cerr w' = cerr w \<and>
      (live (statuses h) i \<longrightarrow> status vm' \<noteq> Blocked)"
proof (cases "live (statuses h) i")
  case True
  then show ?thesis
    using Run_round_migration [OF assms(1-3)] Run_round_blocked [OF assms(1-3) True] unfolding assms(4,5)
    by (simp split del: if_split) (simp split: if_splits)
next
  case False
  then show ?thesis
    using Run_round_migration [OF assms(1-3)] by simp
qed

theorem migration_round_witness:
  "\<exists>h' w'. Run_round (lone leaving) World_init = Inr (Some (h', w')) \<and> parked (vms h' ! 0) \<and> cerr w' = cerr World_init"
proof -
  obtain h' w' where r: "Run_round (lone leaving) World_init = Inr (Some (h', w'))"
    and b: "status (vms h' ! 0) = Blocked" and p: "fst (pick_of (lone leaving)) = 0" and l: "live (statuses (lone leaving)) 0"
    using leaving_round by blast
  have "list_all rested (vms (lone leaving))"
    using leaving_facts by simp
  from migration_round [OF r this p refl refl] show ?thesis
    using r b l by (auto simp: SendWithRetry_def LocalTransport_def local_service_def numeral_3_eq_3 split: if_splits)
qed

section \<open>The program\<close>

text \<open>
  C25: For every choice of scheduler name main returns 0 and prints exactly this: the dump of each
  of the two machines, with 42 in register 1, in one of the two orders; then the scheduler's name;
  then four retired instructions for each machine, in the order in which the library iterates over
  the hash map.
\<close>

theorem demo_main:
  assumes "lists_entries iteration"
  shows "\<exists>dumps w' lines. main_program iteration args w = Some (Inr (0, w')) \<and>
    cout w' = cout w @ concat dumps @ ''Scheduler: '' @ (case args of [] \<Rightarrow> ''round_robin'' | a # _ \<Rightarrow> a)
      @ ''\<newline>'' @ concat lines \<and>
    (dumps = [demo_dump vmA, demo_dump vmB] \<or> dumps = [demo_dump vmB, demo_dump vmA]) \<and>
    (lines = [''vmA retired instructions: 4\<newline>'', ''vmB retired instructions: 4\<newline>''] \<or>
     lines = [''vmB retired instructions: 4\<newline>'', ''vmA retired instructions: 4\<newline>''])"
  using assms by (rule main_returns)

theorem demo_main_witness:
  "\<exists>iteration w'. lists_entries iteration \<and> main_program iteration [''mlfq''] World_init = Some (Inr (0, w'))"
proof -
  have "\<exists>xs :: (string \<times> size_t) list. finite (dom m) \<longrightarrow> distinct xs \<and> set xs = {(k, v). m k = Some v}"
    for m :: "string \<rightharpoonup> size_t"
  proof (cases "finite (dom m)")
    case True
    have "{(k, v). m k = Some v} = (\<lambda>k. (k, the (m k))) ` dom m"
      by force
    then have "finite {(k, v). m k = Some v}"
      using True by simp
    then show ?thesis
      using finite_distinct_list by metis
  qed simp
  then obtain iteration where "lists_entries iteration"
    unfolding lists_entries_def by metis
  then show ?thesis
    using demo_main [of iteration "[''mlfq'']" World_init] by blast
qed

section \<open>The single-file programs\<close>

text \<open>
  C26: With open instruction files and positive slices homework1.cc returns, and all it does after
  its set-up is to execute the lines of the two files in a fixed order: a slice of lines of the
  first file, a slice of the second, and so on, each file in its own order and no line lost or
  repeated, until the first line that aborts. When it returns normally each machine is in the
  state that executing its own file alone gives.
\<close>

theorem turns_in_order:
  assumes "hw1_setup evs w = Inr (f1, vm1, f2, vm2, w0)"
    and "live_stream f1" and "live_stream f2"
    and "vm_exec_slice_in_instructions vm1 = Some m" and "vm_exec_slice_in_instructions vm2 = Some n"
    and "0 < m" and "0 < n"
    and "turn_order (nat m) (nat n) (read_lines f1) (read_lines f2) = order"
  shows "hw1_main evs w = Some (map_sum id (\<lambda>(u1, u2, w'). (0, w')) (exec_order hw1_body order vm1 vm2 w0)) \<and>
    lines_of True order = read_lines f1 \<and> lines_of False order = read_lines f2 \<and>
    (\<forall>u1 u2 w'. exec_order hw1_body order vm1 vm2 w0 = Inr (u1, u2, w') \<longrightarrow>
      exec_lines hw1_step (read_lines f1) vm1 = Inr u1 \<and> exec_lines hw1_step (read_lines f2) vm2 = Inr u2)"
proof -
  have "hw1_main evs w = Some (map_sum id (\<lambda>(u1, u2, w'). (0, w')) (exec_order hw1_body order vm1 vm2 w0))"
    using hw1_main_order [OF assms(1-7)] assms(8) by simp
  moreover have "lines_of True order = read_lines f1 \<and> lines_of False order = read_lines f2"
    using turn_order_lines [of "nat m" "nat n"] assms(6-8) by auto
  moreover have "run_both hw1_body f1 vm1 f2 vm2 w0 = Some (exec_order hw1_body order vm1 vm2 w0)"
    using hw1.run_both_order [OF assms(4-7,2,3), of w0] assms(8) by simp
  ultimately show ?thesis
    using hw1.run_both_alone by metis
qed

theorem turns_in_order_witness:
  "hw1_main [Opt_v ''a'', Opt_v ''a''] turns_world = Some (map_sum id (\<lambda>(u1, u2, w'). (0, w'))
     (exec_order hw1_body
       [(True, ''li $1, 7''), (False, ''li $1, 7''), (True, ''add $2, $1, $1''), (False, ''add $2, $1, $1'')]
       (turns_machine ''vm1'') (turns_machine ''vm2'') turns_world))"
  by (rule turns_in_order [OF turns_setup legacy_live(1) legacy_live(1) turns_slice turns_slice _ _ turns_lines,
        THEN conjunct1]) simp_all

text \<open>
  C27: A static check of the instructions, that every register operand is one of 0 to 31 and every
  shift is by less than 32, decides what the loop of homework1.cc can run into on two files of
  instructions that the program knows, with operands that are ints, and machines that have 32
  registers and a slice: when every instruction passes it, the only aborts are the signed overflow
  of an arithmetic instruction and the exit(1) of a division by zero, never an index outside the
  registers, a shift that is undefined or an uncaught exception; and when the loop ends normally,
  every instruction of both files has passed it, and each machine still has its 32 registers, its
  name, its slice and its file name.
\<close>

theorem typed_programs_safe:
  assumes "run_both hw1_body f1 vm1 f2 vm2 w = Some r"
    and "read_lines f1 = map render_asm p1" and "read_lines f2 = map render_asm p2"
    and "list_all asm_ok p1" and "list_all asm_ok p2" and "wf_class vm1" and "wf_class vm2"
    and "vm_exec_slice_in_instructions vm1 \<noteq> None" and "vm_exec_slice_in_instructions vm2 \<noteq> None"
  shows "case r of
      Inr (u1, u2, w') \<Rightarrow> list_all typed (p1 @ p2) \<and> same_set_up vm1 u1 \<and> same_set_up vm2 u2
    | Inl e \<Rightarrow> list_all typed (p1 @ p2) \<longrightarrow> e \<in> {UB_Overflow, Exit 1}"
proof (cases r)
  case (Inl e)
  then have "run_both hw1_body f1 vm1 f2 vm2 w = Some (Inl e)"
    using assms(1) by simp
  from hw1.run_both_abort [OF this assms(8,9)] Inl show ?thesis
    using assms(2,3) hw1_text.program_typed(2) [OF assms(4,6), of e] hw1_text.program_typed(2) [OF assms(5,7), of e] by auto
next
  case (Inr x)
  obtain u1 u2 w' where x: "x = (u1, u2, w')" by (cases x)
  note run = hw1.run_both_alone [OF assms(1) [unfolded Inr x]]
  show ?thesis
    using hw1_text.program_typed(1) [OF assms(4,6)] hw1_text.program_typed(1) [OF assms(5,7)] run assms(2,3)
      exec_lines_set_up [OF run(1) assms(6)] exec_lines_set_up [OF run(2) assms(7)] by (simp add: Inr x)
qed

theorem typed_programs_safe_witness:
  "\<exists>u1 u2 w'. run_both hw1_body (istringstream legacy_text) (legacy_named ''vm1'')
       (istringstream legacy_text) (legacy_named ''vm2'') World_init = Some (Inr (u1, u2, w')) \<and>
     same_set_up (legacy_named ''vm2'') u2"
proof -
  obtain u1 u2 w' where r: "run_both hw1_body (istringstream legacy_text) (legacy_named ''vm1'')
      (istringstream legacy_text) (legacy_named ''vm2'') World_init = Some (Inr (u1, u2, w'))"
    using hw1.run_both_outcome [OF legacy_live(1) legacy_live(1) legacy_live(3) legacy_live(3)] legacy_runs(2,3)
    by blast
  have l: "read_lines (istringstream legacy_text) = map render_asm [Asm_li 1 7, Asm_reg ''add'' 2 1 1]"
    and a: "list_all asm_ok [Asm_li 1 7, Asm_reg ''add'' 2 1 1]"
    and wf: "wf_class (legacy_named ''vm1'')" "wf_class (legacy_named ''vm2'')"
    by code_simp+
  have s: "vm_exec_slice_in_instructions (legacy_named nm) \<noteq> None" for nm
    by (simp add: legacy_named_def)
  show ?thesis
    using typed_programs_safe [OF r l l a a wf s s] r by auto
qed

text \<open>
  C28: When both instruction files are open and both slices are positive, the program project.cc
  ends, and it ends with status 0 exactly when each of the two instruction files runs to its end
  on its own machine alone.
\<close>

theorem project_outcome:
  assumes "project_setup args w = Inr (f1, vm1, f2, vm2, w0)"
    and "live_stream f1" and "live_stream f2" and "positive_slice vm1" and "positive_slice vm2"
  shows "(\<exists>r. project_main args w = Some r) \<and>
    ((\<exists>w'. project_main args w = Some (Inr (0, w'))) \<longleftrightarrow>
      returns (exec_lines project_step (read_lines f1) vm1) \<and> returns (exec_lines project_step (read_lines f2) vm2))"
proof -
  obtain r where "run_both project_solve f1 vm1 f2 vm2 w0 = Some r"
    using project.run_both_returns [OF assms(2-5)] by blast
  then show ?thesis
    using project.run_both_outcome [OF assms(2-5), of w0, symmetric] project_main_run [OF assms(1)]
    by (cases r) auto
qed

theorem project_outcome_witness:
  "\<exists>w'. project_main [''-v'', ''a'', ''-v'', ''a''] legacy_world = Some (Inr (0, w'))"
  using project_outcome [OF legacy_setups(1)] legacy_runs(1) by simp



text \<open>
  C30: An empty line in an instruction file of project.cc keeps main from returning a status. With
  open files and positive slices the program executes the lines in front of the first empty one,
  in the order of the turns, which may make it abort, for instance with the exit(1) of a division
  by zero; otherwise it ends in an exception nothing catches, since decoding the empty line gives
  the empty text to stoi.
\<close>

theorem project_blank_line:
  assumes "project_setup args w = Inr (f1, vm1, f2, vm2, w0)"
    and "[] \<in> set (read_lines f1) \<union> set (read_lines f2)"
  shows "project_main args w \<noteq> Some (Inr r) \<and>
    (\<forall>m n order. live_stream f1 \<and> live_stream f2 \<and> 0 < m \<and> 0 < n \<and>
      vm_exec_slice_in_instructions vm1 = Some m \<and> vm_exec_slice_in_instructions vm2 = Some n \<and>
      turn_order (nat m) (nat n) (read_lines f1) (read_lines f2) = order \<longrightarrow>
      project_main args w =
        Some (case exec_order project_solve (takeWhile (\<lambda>l. snd l \<noteq> []) order) vm1 vm2 w0 of
                Inl e \<Rightarrow> Inl e
              | Inr s \<Rightarrow> Inl Uncaught_Exception))"
proof (intro conjI allI impI notI)
  assume "project_main args w = Some (Inr r)"
  then obtain u1 u2 w' where "run_both project_solve f1 vm1 f2 vm2 w0 = Some (Inr (u1, u2, w'))"
    by (cases "run_both project_solve f1 vm1 f2 vm2 w0")
      (auto simp: project_main_run [OF assms(1)] map_sum_def split: sum.splits)
  from project.run_both_alone [OF this] have "returns (exec_lines project_step (read_lines f1) vm1)"
    and "returns (exec_lines project_step (read_lines f2) vm2)"
    by simp_all
  then show False
    using assms(2) exec_lines_stops [of "[]" _ project_step] by (auto simp: project_step_empty)
qed (use project_main_blank [OF assms(1) _ _ _ _ _ _ assms(2)] in blast)

theorem project_blank_line_witness:
  "project_main [''-v'', ''a'', ''-v'', ''c''] legacy_world = Some (Inl Uncaught_Exception)"
proof -
  have l: "read_lines (istringstream legacy_text) = [''li $1, 7'', ''add $2, $1, $1'']"
    and b: "read_lines (istringstream blank_text) = [''li $1, 7'', [], ''add $2, $1, $1'']"
    by code_simp+
  let ?before = "[(True, ''li $1, 7''), (False, ''li $1, 7''), (True, ''add $2, $1, $1'')]"
  have o: "turn_order (nat 1) (nat 1) (read_lines (istringstream legacy_text)) (read_lines (istringstream blank_text)) =
      ?before @ [(False, []), (False, ''add $2, $1, $1'')]"
    unfolding l b by (simp add: turn_order.simps)
  have s: "vm_exec_slice_in_instructions (legacy_class nm) = Some 1" for nm
    by (simp add: legacy_class_def)
  have r: "returns (exec_order project_solve ?before (legacy_class ''p'') (legacy_class ''q'') legacy_world)"
    by code_simp
  have "[] \<in> set (read_lines (istringstream legacy_text)) \<union> set (read_lines (istringstream blank_text))"
    by (simp add: b)
  from conjunct2 [OF project_blank_line [OF legacy_setups(2) this], rule_format, of 1 1] o s r show ?thesis
    by (auto simp: returns_iff simp del: exec_order.simps)
qed

text \<open>
  C31: The line of text of an instruction, with registers written $n and blanks as in the sample
  programs, executes the operation the instruction stands for on the numbers written: the eight
  operations on registers, the six with an immediate operand, and mult, div and li; or stands for
  ORI when its last operand is a number.
\<close>

theorem line_decoding:
  assumes "in_i32 d" and "in_i32 a" and "in_i32 b"
  shows "(\<forall>(opc, f) \<in> set register_forms.
      exec_line (line3 opc (reg_operand d) (reg_operand a) (reg_operand b)) obj = f d a b obj) \<and>
    (\<forall>(opc, f) \<in> set immediate_forms.
      exec_line (line3 opc (reg_operand d) (reg_operand a) (imm_operand b)) obj = f d a b obj) \<and>
    exec_line (line2 ''mult'' (reg_operand d) (reg_operand a)) obj = mult d a obj \<and>
    exec_line (line2 ''div'' (reg_operand d) (reg_operand a)) obj = divi d a obj \<and>
    exec_line (line2 ''li'' (reg_operand d) (imm_operand a)) obj = li d a obj"
  using exec_register_form [OF _ assms] exec_immediate_form [OF _ assms] exec_two_operand_forms [OF assms(1,2)]
  by fast

theorem line_decoding_witness:
  "exec_line (line3 ''addi'' (reg_operand 3) (reg_operand 1) (imm_operand (- 5))) VmClass_init = addi 3 1 (- 5) VmClass_init"
proof -
  have "in_i32 3" and "in_i32 1" and "in_i32 (- 5)"
    by (simp_all add: in_i32_def)
  from line_decoding [OF this, of VmClass_init] show ?thesis
    by (simp add: immediate_forms_def)
qed

text \<open>
  C32: The instructions mult and div lose nothing: hi and low together are the exact 64-bit
  product of the two registers, and low and hi are the quotient and a remainder smaller than the
  divisor with quotient times divisor plus remainder the dividend.
\<close>

theorem mult_div_exact:
  assumes "reg_at src obj = Inr a" and "reg_at src2 obj = Inr b"
  shows "(\<forall>obj'. mult src src2 obj = Inr obj' \<longrightarrow>
      sint (hi_reg obj') * 2 ^ 32 + uint (low_reg obj') = sint a * sint b) \<and>
    (\<forall>obj'. divi src src2 obj = Inr obj' \<longrightarrow>
      sint (low_reg obj') * sint b + sint (hi_reg obj') = sint a \<and> \<bar>sint (hi_reg obj')\<bar> < \<bar>sint b\<bar>)"
  using mult_exact [OF _ assms] divi_exact [OF _ assms] by blast

theorem mult_div_exact_witness:
  "\<exists>obj'. divi 1 2 (two_regs (- 7) 2) = Inr obj' \<and>
     sint (low_reg obj') * sint (2 :: i32) + sint (hi_reg obj') = sint (- 7 :: i32)"
proof -
  have a: "reg_at 1 (two_regs (- 7) 2) = Inr (- 7)" and b: "reg_at 2 (two_regs (- 7) 2) = Inr 2"
    and r: "returns (divi 1 2 (two_regs (- 7) 2))"
    by code_simp+
  then obtain obj' where "divi 1 2 (two_regs (- 7) 2) = Inr obj'"
    by (auto simp: returns_iff)
  then show ?thesis
    using mult_div_exact [OF a b] by blast
qed

text \<open>
  C33: A program written as text computes what a reference interpreter computes that has neither
  text nor words: the interpreter runs a list of instructions on registers that are integers, with
  exact sums, products and quotients that abort when they leave the 32 bits, or results reduced to
  32 bits with a sign, for all sixteen mnemonics and the dump. Executing the lines that the
  instructions are written as, in project.cc, in homework1.cc and at the server, gives the same
  registers, hi and low, and the same abort, for operands that are ints and a machine of 32
  registers. So the mask in the code of mul never yields the low word of a larger product, srl
  keeps the sign, and a negative register number is an index outside the registers also where the
  code has made it unsigned.
\<close>

theorem text_programs_compute:
  assumes "list_all asm_ok p" and "wf_class obj1" and "wf_class obj2" and "wf_class obj3"
  shows "map_sum id (ref_of \<circ> fst) (exec_on project_solve (map render_asm p) obj1 w) = ref_run p (ref_of obj1) \<and>
    map_sum id (ref_of \<circ> fst) (exec_on hw1_body (map render_asm p) obj2 w) = ref_run p (ref_of obj2) \<and>
    map_sum id (ref_of \<circ> fst) (server_loop (map render_asm p) obj3 w) = ref_run p (ref_of obj3)"
  using project_text.program_ref [OF assms(1,2)] hw1_text.program_ref [OF assms(1,3)]
    migr_text.program_ref [OF assms(1,4)]
  by (simp only: map_sum_fst project.exec_on_lines hw1.exec_on_lines server_loop_value simp_thms)

theorem text_programs_compute_witness:
  "\<exists>u w'. exec_on project_solve [''li $1, -7'', ''li $2, 2'', ''div $1, $2'', ''srl $3, $1, 1''] VmClass_init World_init =
       Inr (u, w') \<and> map sint (take 4 (registers u)) = [0, - 7, 2, - 4] \<and> sint (low_reg u) = - 3 \<and> sint (hi_reg u) = - 1"
proof -
  let ?p = "[Asm_li 1 (- 7), Asm_li 2 2, Asm_div 1 2, Asm_imm ''srl'' 3 1 1]"
  have l: "map render_asm ?p = [''li $1, -7'', ''li $2, 2'', ''div $1, $2'', ''srl $3, $1, 1'']"
    and a: "list_all asm_ok ?p" and wf: "wf_class VmClass_init" "wf_class (VmNamed_init [])" "wf_class (VmMigr_init [])"
    and q: "(case ref_run ?p (ref_of VmClass_init) of Inl e \<Rightarrow> False
      | Inr m \<Rightarrow> take 4 (reg_values m) = [0, - 7, 2, - 4] \<and> low_value m = - 3 \<and> hi_value m = - 1)"
    by code_simp+
  let ?run = "exec_on project_solve (map render_asm ?p) VmClass_init World_init"
  have e: "map_sum id (ref_of \<circ> fst) ?run = ref_run ?p (ref_of VmClass_init)"
    by (rule text_programs_compute [OF a wf, THEN conjunct1])
  obtain m where m: "ref_run ?p (ref_of VmClass_init) = Inr m"
    and v: "take 4 (reg_values m) = [0, - 7, 2, - 4]" "low_value m = - 3" "hi_value m = - 1"
    using q by (cases "ref_run ?p (ref_of VmClass_init)") simp_all
  obtain u w' where u: "?run = Inr (u, w')" and r: "ref_of u = m"
    using e m by (cases ?run) auto
  have "map sint (take 4 (registers u)) = [0, - 7, 2, - 4] \<and> sint (low_reg u) = - 3 \<and> sint (hi_reg u) = - 1"
    using v by (simp add: ref_of_def take_map flip: r)
  then show ?thesis
    using u [unfolded l] by (intro exI [of _ u] exI [of _ w'] conjI) simp_all
qed

text \<open>
  C34: What the SNAPSHOT instruction of homework1.cc writes to a file that can be opened,
  load_Snapshot reads back: a machine that loads it has the registers, hi and low of the one that
  wrote it, and keeps its own other members; so each of the two machines that the program sets up
  with that file as its snapshot starts with the registers that were saved, whatever its
  configuration file says.
\<close>

theorem class_snapshot_round_trip:
  assumes "CHR '' '' \<notin> set f" and "writable w f" and "wf_class src" and "wf_class obj"
  shows "\<exists>w'. hw1_solve (''SNAPSHOT '' @ f) src w = Inr (src, w') \<and>
    load_Snapshot f obj w' = Inr (obj\<lparr>registers := registers src, hi_reg := hi_reg src, low_reg := low_reg src\<rparr>, w') \<and>
    (\<forall>opts i a vm w2. snapshot_Files opts ! i = f \<and> f \<noteq> no_snapshot \<and> 
      (hw1_machine opts i a obj w' = Inr (vm, w2) \<or> hw1_machine2 opts i a obj w' = Inr (vm, w2)) \<longrightarrow>
      registers vm = registers src \<and> hi_reg vm = hi_reg src \<and> low_reg vm = low_reg src)"
proof -
  obtain w' where w': "hw1_solve (''SNAPSHOT '' @ f) src w = Inr (src, w')"
    and l: "\<And>w2. files w2 = files w' \<Longrightarrow> load_Snapshot f obj w2 =
      Inr (obj\<lparr>registers := registers src, hi_reg := hi_reg src, low_reg := low_reg src\<rparr>, w2)"
    using hw1_snapshot [OF assms] by auto
  then show ?thesis
    using hw1_machine_snapshot [OF _ _ _ l] hw1_machine2_snapshot [OF _ _ _ l]
    by (intro exI [of _ w'] conjI allI impI) (blast+)
qed

theorem class_snapshot_round_trip_witness:
  "\<exists>w'. load_Snapshot ''s'' (legacy_named ''vm2'') w' = Inr ((legacy_named ''vm2'')\<lparr>hi_reg := 9\<rparr>, w')"
proof -
  have "wf_class ((legacy_named ''vm1'')\<lparr>hi_reg := 9\<rparr>)" and "wf_class (legacy_named ''vm2'')"
    and e: "(legacy_named ''vm2'')\<lparr>registers := registers (legacy_named ''vm1''), hi_reg := 9, low_reg := 0\<rparr> =
      (legacy_named ''vm2'')\<lparr>hi_reg := 9\<rparr>" and "low_reg (legacy_named ''vm1'') = 0"
    by code_simp+
  then show ?thesis
    using class_snapshot_round_trip [of "''s''" World_init "(legacy_named ''vm1'')\<lparr>hi_reg := 9\<rparr>" "legacy_named ''vm2''"]
    by (auto simp: World_init_def)
qed

text \<open>
  C35: On the command line of homework1.cc and of the client each -s option belongs to the -v
  option before it: for any machines, each with or without a snapshot, parsing the options in that
  order gives the instruction files in order and the snapshot of each machine at the same
  position.
\<close>

theorem options_order:
  assumes "ms \<noteq> []"
  shows "assembly_Files (fst (parse_options (concat (map machine_options ms)) w)) = map fst ms \<and>
    snapshot_Files (fst (parse_options (concat (map machine_options ms)) w)) = map snapshot_of ms \<and>
    snd (parse_options (concat (map machine_options ms)) w) = w"
  using parse_options_machines [OF assms] by simp

theorem options_order_witness:
  "snapshot_Files (fst (parse_options [Opt_v ''a'', Opt_v ''b'', Opt_s ''s''] World_init)) = [''Nosnapshot'', ''s'']"
  using options_order [of "[(''a'', None), (''b'', Some ''s'')]" World_init]
  by (simp add: machine_options_def snapshot_of_def no_snapshot_def)

section \<open>Migration between client and server\<close>



text \<open>
  C37: A machine that the client program has set up, runs up to a MIGRATE line with an address and
  sends away continues at the server, under assumptions that the code does not check: the client's
  socket calls succeed and send accepts the whole message; the one recv of the server delivers all
  of it, which TCP does not promise; behind the message the buffer, which is not initialised,
  holds values with a null character among them; and the name of the instruction file has at most
  600 characters, none of them a white space or a null. Then the client exits with status 0, and
  on a copy of the same file the server executes the lines behind as many lines as the client
  counted, with the registers the client had, and exits with status 0 exactly when these lines can
  be executed. When no line before MIGRATE is empty, these are exactly the lines behind MIGRATE;
  otherwise the client, which does not count empty lines, makes the server execute lines again. If
  the first character behind the message has no value, the server reads a value that was never
  written.
\<close>

theorem migration_resumes:
  assumes "parse_options evs w = (opts, w0)" and "assembly_Files opts = a # fs"
    and "hw1_machine opts 0 a (VmMigr_init ''vm1'') w0 = Inr (vm, w1)"
    and "read_lines (open_input (''input_files_hw3/'' @ vm_binary vm) w1) = pre @ m # post"
    and "read_lines (open_input (''input_files_hw3/'' @ vm_binary vm) ws) = pre @ m # post"
    and "exec_lines migr_step pre vm = Inr vm1" and "no_migration pre" and "int (line_count pre) < 2 ^ 31 - 1"
    and "is_word (vm_binary vm)" and "NUL \<notin> set (vm_binary vm)" and "length (vm_binary vm) \<le> 600"
    and "fst (line_fields m) = ''MIGRATE''" and "find_ip m = Some ip"
    and "ls = drop (Suc (line_count pre)) (pre @ m # post)"
  shows "\<exists>msg w2. client_main all_sent evs w = Inr (0, Some msg, w2) \<and> length msg \<le> 997 \<and>
    (\<forall>old g rest. drop (length msg) old = map Some g @ Some NUL # rest \<longrightarrow>
      rel_sum (=) (\<lambda>u (u', w'). same_registers u u') (exec_lines migr_step ls vm1) (serve msg old ws) \<and>
      ((\<exists>w3. server_main (Inr msg) old ws = Inr (0, w3)) \<longleftrightarrow> returns (exec_lines migr_step ls vm1))) \<and>
    (\<forall>old rest. drop (length msg) old = None # rest \<longrightarrow> server_main (Inr msg) old ws = Inl UB_Uninitialized) \<and>
    ([] \<notin> set pre \<longrightarrow> ls = post)"
proof -
  note set_up = client_set_up [OF assms(3)]
  obtain vm2 w2 where c: "client_loop all_sent (pre @ m # post) vm (report_open (''input_files_hw3/'' @ vm_binary vm) w1) =
        Inr (Migrated (c_str (migration_text vm2 (vm_binary vm))) w2)"
    and v: "same_registers vm1 vm2" "vpc vm2 = int (line_count pre) + 1" "sendable vm2 (vm_binary vm)"
    using client_sends [OF assms(6) set_up assms(7-10,12,13)] by blast
  define msg where "msg = c_str (migration_text vm2 (vm_binary vm))"
  have len: "length msg \<le> 997"
    using message_fits [OF v(3) assms(11)] by (simp add: msg_def)
  then have fits: "length msg \<le> buffer_size" "take buffer_size msg = msg"
    by (simp_all add: buffer_size_def)
  have n: "nat (vpc vm2) = Suc (line_count pre)" and z: "0 \<le> vpc vm2"
    using v(2) by simp_all
  have "client_main all_sent evs w = Inr (0, Some msg, w2)"
    using c client_main_run [OF assms(1-3)] assms(4) by (simp add: msg_def)
  moreover have "rel_sum (=) (\<lambda>u (u', w'). same_registers u u') (exec_lines migr_step ls vm1) (serve msg old ws)"
    if "drop (length msg) old = map Some g @ Some NUL # rest" for old g rest
    using serve_lines [OF v(3) z assms(11) msg_def that v(1), of ws] by (simp only: n assms(5,14))
  moreover have "server_main (Inr msg) old ws = Inl UB_Uninitialized" if "drop (length msg) old = None # rest" for old rest
    using received_past(2) [of msg "[]" old rest] that serve_unread [of msg old] fits(2)
    by (simp add: server_main_def msg_def not_NUL_c_str)
  moreover have "ls = post" if "[] \<notin> set pre"
  proof -
    have "filter (\<lambda>l. l \<noteq> []) pre = pre"
      using that by (metis (mono_tags, lifting) filter_True)
    then show ?thesis
      by (simp add: assms(14))
  qed
  ultimately show ?thesis
    using len server_main_returns [OF fits(1)] rel_sum_returns by blast
qed

theorem migration_resumes_witness:
  "\<exists>msg w2 w3. client_main all_sent [Opt_v ''a''] server_world = Inr (0, Some msg, w2) \<and>
     server_main (Inr msg) (replicate 1024 (Some NUL)) server_world = Inr (0, w3)"
proof -
  have p: "exec_lines migr_step [''li $1, 7''] migrant = Inr (migrant\<lparr>registers := (registers migrant)[1 := 7]\<rparr>)"
    and i: "find_ip ''MIGRATE 10.0.0.1'' = Some ''10.0.0.1''" and m: "fst (line_fields ''MIGRATE 10.0.0.1'') = ''MIGRATE''"
    and r: "read_lines (istringstream migrant_text) = [''li $1, 7''] @ ''MIGRATE 10.0.0.1'' # [''add $2, $1, $1'']"
    and n: "no_migration [''li $1, 7'']" and w: "is_word (vm_binary migrant)" and b: "vm_binary migrant = ''p''"
    and q: "returns (exec_lines migr_step [''add $2, $1, $1''] (migrant\<lparr>registers := (registers migrant)[1 := 7]\<rparr>))"
    by code_simp+
  have f: "read_lines (open_input (''input_files_hw3/'' @ vm_binary migrant) server_world) =
      [''li $1, 7''] @ ''MIGRATE 10.0.0.1'' # [''add $2, $1, $1'']"
    using r by (simp add: b open_input_def server_world_def)
  have a: "assembly_Files one_machine = [''a'']"
    by (simp add: one_machine_def)
  have l: "[''add $2, $1, $1''] = drop (Suc (line_count [''li $1, 7''])) ([''li $1, 7''] @ ''MIGRATE 10.0.0.1'' # [''add $2, $1, $1''])"
    by simp
  have k: "int (line_count [''li $1, 7'']) < 2 ^ 31 - 1" "NUL \<notin> set (vm_binary migrant)" "length (vm_binary migrant) \<le> 600"
    by (simp_all add: b)
  obtain msg w2 where c: "client_main all_sent [Opt_v ''a''] server_world = Inr (0, Some msg, w2)" and len: "length msg \<le> 997"
    and s: "\<And>old g rest. drop (length msg) old = map Some g @ Some NUL # rest \<Longrightarrow> \<exists>w3. server_main (Inr msg) old server_world = Inr (0, w3)"
    using migration_resumes [OF migrant_options a migrant_set_up f f p n k(1) w k(2,3) m i l] q by blast
  have "drop (length msg) (replicate 1024 (Some NUL)) = map Some [] @ Some NUL # replicate (1024 - length msg - 1) (Some NUL)"
    using drop_replicated [of "length msg" 1024 "Some NUL"] len by simp
  from s [OF this] c show ?thesis
    by blast
qed

text \<open>
  C38: When a socket call of the client fails, whichever it is, a MIGRATE line with an address
  leaves the machine as it was but for the line count, which goes up by one like for every line;
  it prints the state, the address and, on cerr, the call that failed with its code. So when no
  message can ever be sent, every MIGRATE line has an address and the count stays an int, the
  client executes its file to the end as if the MIGRATE lines were not in it: it ends with the
  machine, or the abort, of the file without them, except that the count includes them.
\<close>

theorem failed_migration:
  assumes "\<And>w msg. failed_call (net w msg) \<noteq> None"
    and "\<forall>l \<in> set ls. fst (line_fields l) = ''MIGRATE'' \<longrightarrow> find_ip l \<noteq> None"
    and "0 \<le> vpc vm" and "vpc vm + int (line_count ls) < 2 ^ 31"
  shows "(\<forall>sock l obj f v ip call code. fst (line_fields l) = ''MIGRATE'' \<and> find_ip l = Some ip \<and> in_i32 (vpc obj + 1) \<and>
      failed_call (sock (connecting obj ip v) (c_str (migration_text (obj\<lparr>vpc := vpc obj + 1\<rparr>) f))) = Some (call, code) \<longrightarrow>
      client_solve sock l obj f v =
        Inr (Next (obj\<lparr>vpc := vpc obj + 1\<rparr>)
          (v\<lparr>cout := cout v @ ''Before Migration\<newline>'' @ dumpstate obj @ ''Connecting to IP address: '' @ ip @ ''\<newline>'',
             cerr := cerr v @ call @ '' failed: '' @ show_int code @ ''\<newline>''\<rparr>))) \<and>
    rel_sum (=) (\<lambda>u r. \<exists>w'. r = Next (u\<lparr>vpc := vpc vm + int (line_count ls)\<rparr>) w')
      (exec_lines migr_step (filter (\<lambda>l. fst (line_fields l) \<noteq> ''MIGRATE'') ls) vm) (client_loop net ls vm w)"
proof (intro conjI allI impI)
  fix sock l f v ip call code and obj :: VmMigr
  assume l: "fst (line_fields l) = ''MIGRATE'' \<and> find_ip l = Some ip \<and> in_i32 (vpc obj + 1) \<and>
    failed_call (sock (connecting obj ip v) (c_str (migration_text (obj\<lparr>vpc := vpc obj + 1\<rparr>) f))) = Some (call, code)"
  then show "client_solve sock l obj f v =
      Inr (Next (obj\<lparr>vpc := vpc obj + 1\<rparr>)
        (v\<lparr>cout := cout v @ ''Before Migration\<newline>'' @ dumpstate obj @ ''Connecting to IP address: '' @ ip @ ''\<newline>'',
           cerr := cerr v @ call @ '' failed: '' @ show_int code @ ''\<newline>''\<rparr>))"
    using client_solve_failed [where net = sock and l = l and vm = obj and w = v and f = f and ip = ip] by (simp add: connecting_def)
next
  have "vm\<lparr>vpc := vpc vm\<rparr> = vm"
    by (cases vm) simp
  then show "rel_sum (=) (\<lambda>u r. \<exists>w'. r = Next (u\<lparr>vpc := vpc vm + int (line_count ls)\<rparr>) w')
      (exec_lines migr_step (filter (\<lambda>l. fst (line_fields l) \<noteq> ''MIGRATE'') ls) vm) (client_loop net ls vm w)"
    using client_loop_failed [where net = net and w = w and k = "vpc vm" and u = vm, OF assms(1,2) _ assms(4)] assms(3)
    by simp
qed

theorem failed_migration_witness:
  "\<exists>w'. client_loop (\<lambda>_ _. Connect_failed 10061) [''li $1, 7'', ''MIGRATE 10.0.0.1''] migrant World_init =
     Inr (Next (migrant\<lparr>registers := (registers migrant)[1 := 7], vpc := 2\<rparr>) w')"
proof -
  have i: "find_ip ''MIGRATE 10.0.0.1'' = Some ''10.0.0.1''" and m: "fst (line_fields ''MIGRATE 10.0.0.1'') = ''MIGRATE''"
    and l: "fst (line_fields ''li $1, 7'') = ''li''" and z: "vpc migrant = 0"
    and p: "exec_lines migr_step [''li $1, 7''] migrant = Inr (migrant\<lparr>registers := (registers migrant)[1 := 7]\<rparr>)"
    by code_simp+
  have c: "failed_call (Connect_failed 10061) \<noteq> None"
    by simp
  show ?thesis
    using failed_migration [of "\<lambda>_ _. Connect_failed 10061", OF c, THEN conjunct2,
        of "[''li $1, 7'', ''MIGRATE 10.0.0.1'']" migrant World_init] p
    by (auto simp: i m l z rel_sum.simps simp del: client_loop.simps exec_lines.simps find_ip.simps)
qed

text \<open>
  C39: The search of the client for an address in a MIGRATE line agrees with the expression it is
  written as, four groups of one to three digits with dots between them: it fails exactly when no
  part of the line has that form, and otherwise finds the leftmost part that has it, and the
  longest one that begins there.
\<close>

theorem address_search:
  "(find_ip s = None \<longleftrightarrow> (\<forall>pre m. \<not> ip_at s pre m)) \<and>
   (find_ip s = Some ip \<longrightarrow> (\<exists>pre. ip_at s pre ip \<and>
      (\<forall>pre' m. ip_at s pre' m \<longrightarrow> length pre < length pre' \<or> pre' = pre \<and> length m \<le> length ip)))"
  using find_ip_None [of s] find_ip_Some [of s] by (cases "find_ip s") blast+

theorem address_search_witness:
  "\<exists>pre. ip_at ''MIGRATE 1234.5.6.7'' pre ''234.5.6.7''"
proof -
  have "find_ip ''MIGRATE 1234.5.6.7'' = Some ''234.5.6.7''"
    by code_simp
  then show ?thesis
    using address_search [of "''MIGRATE 1234.5.6.7''" "''234.5.6.7''"] by blast
qed

text \<open>
  C40: The server reads its buffer as a C string before it ends the message in it. So when no null
  character stands in the message or behind it, it reads on behind the message, where the
  behaviour is undefined: it reads the first character that has no value, or past the end of the
  buffer. And after it has executed the lines it writes a null character at the index of the
  received length, which is outside the buffer when the message fills it: such a run ends in that
  undefined behaviour, unless executing the lines has aborted before, for instance with the
  exit(1) of a division by zero.
\<close>

theorem server_buffer_overrun:
  assumes "length old = buffer_size" and "length msg \<le> buffer_size"
  shows "(\<forall>g rest. NUL \<notin> set msg \<union> set g \<longrightarrow>
      (drop (length msg) old = map Some g \<longrightarrow> serve msg old w = Inl UB_Bounds) \<and>
      (drop (length msg) old = map Some g @ None # rest \<longrightarrow> serve msg old w = Inl UB_Uninitialized)) \<and>
    (\<forall>s vm f. length msg = buffer_size \<and> received_text msg old = Inr s \<and>
      parse_migration s (VmMigr_init []) = (vm, f) \<longrightarrow>
      serve msg old w =
        (case exec_lines migr_step (drop (nat (vpc vm)) (read_lines (open_input (''input_files_hw3/'' @ f) w))) vm of
           Inl e \<Rightarrow> Inl e
         | Inr u \<Rightarrow> Inl UB_Bounds))"
proof (intro conjI allI impI)
  fix s vm f
  assume a: "length msg = buffer_size \<and> received_text msg old = Inr s \<and> parse_migration s (VmMigr_init []) = (vm, f)"
  let ?r = "exec_lines migr_step (drop (nat (vpc vm)) (read_lines (open_input (''input_files_hw3/'' @ f) w))) vm"
  show "serve msg old w = (case ?r of Inl e \<Rightarrow> Inl e | Inr u \<Rightarrow> Inl UB_Bounds)"
    using serve_received [of msg old s vm f w] a by (cases ?r) (auto simp: rel_sum.simps)
qed (use received_past serve_unread in auto)

theorem server_buffer_overrun_witness:
  "serve (replicate 1024 CHR ''1'') (replicate 1024 None) World_init = Inl UB_Bounds \<and>
   serve ''1'' (replicate 1024 None) World_init = Inl UB_Uninitialized \<and>
   serve (replicate 1024 NUL) (replicate 1024 None) World_init = Inl UB_Bounds"
proof -
  have p: "parse_migration [] (VmMigr_init []) = (VmMigr_init [], [])" and z: "vpc (VmMigr_init []) = 0"
    by code_simp+
  have f: "read_lines (open_input ''input_files_hw3/'' World_init) = []"
    by (simp add: open_input_def World_init_def read_lines_bad good_def)
  have t: "received_text (replicate 1024 NUL) (replicate 1024 None) = Inr []"
    using c_read_terminated [of "[]"] drop_replicated [of 0 1024 "Some NUL"] by (simp add: received_text_def)
  have d: "drop (length ''1'') (replicate 1024 None) = map Some [] @ None # replicate 1022 None"
    using drop_replicated [of 1 1024 None] by simp
  have l: "length (replicate 1024 None) = buffer_size" "length (replicate 1024 CHR ''1'') \<le> buffer_size"
    "length ''1'' \<le> buffer_size" "length (replicate 1024 NUL) = buffer_size"
    by (simp_all add: buffer_size_def)
  have "serve (replicate 1024 CHR ''1'') (replicate 1024 None) World_init = Inl UB_Bounds"
    using conjunct1 [OF server_buffer_overrun [OF l(1,2)], rule_format, of "[]"] by simp
  moreover have "serve ''1'' (replicate 1024 None) World_init = Inl UB_Uninitialized"
    by (rule conjunct1 [OF server_buffer_overrun [OF l(1,3)], rule_format, THEN conjunct2, THEN mp, OF _ d]) simp
  moreover have "serve (replicate 1024 NUL) (replicate 1024 None) World_init = Inl UB_Bounds"
    using conjunct2 [OF server_buffer_overrun [OF l(1)], rule_format, of _ "[]" "VmMigr_init []" "[]"] l(4) t p z f
    by simp
  ultimately show ?thesis
    by simp
qed

end
